theory Spec2Isabelle
  imports Main "HOL-Library.Log_Nat"
begin

section \<open>Python values and exceptions\<close>

text \<open>
  The exceptions the modelled code can raise. \<open>IndexError\<close> is what list indexing raises
  out of range (the specification calls it OutOfBounds), \<open>ZeroDivisionError\<close> and
  \<open>OverflowError\<close> come from true division, and \<open>CollaboratorFailure\<close> stands for any
  exception raised inside one of the external cognitive modules.
\<close>

datatype error = IndexError | ZeroDivisionError | OverflowError | CollaboratorFailure string

definition bnd :: "error + 'a \<Rightarrow> ('a \<Rightarrow> error + 'b) \<Rightarrow> error + 'b" where
  "bnd r f = (case r of Inl e \<Rightarrow> Inl e | Inr v \<Rightarrow> f v)"

text \<open>
  Python list indexing \<open>xs[i]\<close>: an index in \<open>[0, len)\<close> reads from the front, an index in
  \<open>[-len, 0)\<close> reads from the end, anything else raises IndexError. \<open>py_pos\<close> is the
  position that is read or written.
\<close>

definition py_pos :: "'a list \<Rightarrow> int \<Rightarrow> error + nat" where
  "py_pos xs i =
     (if 0 \<le> i \<and> i < int (length xs) then Inr (nat i)
      else if i < 0 \<and> - int (length xs) \<le> i then Inr (nat (int (length xs) + i))
      else Inl IndexError)"

definition py_index :: "'a list \<Rightarrow> int \<Rightarrow> error + 'a" where
  "py_index xs i = bnd (py_pos xs i) (\<lambda>k. Inr (xs ! k))"

text \<open>Python \<open>range(a, b)\<close> over integers.\<close>

definition py_range :: "int \<Rightarrow> int \<Rightarrow> int list" where
  "py_range a b = [a..b - 1]"

section \<open>The maze (maze.py)\<close>

type_synonym tile_coord = "int \<times> int"

text \<open>An event is the 4-tuple \<open>(subject, predicate, object, description)\<close>; \<open>None\<close> is Python's None.\<close>

type_synonym event = "string \<times> string option \<times> string option \<times> string option"

record tile =
  world :: string
  sector :: string
  arena :: string
  game_object :: string
  spawning_location :: string
  collision :: bool
  events :: "event set"

text \<open>
  \<open>address_tiles\<close> is a \<open>defaultdict(set)\<close>: a key that was never written has no entry, and
  reading it gives the empty set.
\<close>

type_synonym address_index = "string \<rightharpoonup> tile_coord set"

record maze =
  maze_width :: int
  maze_height :: int
  sq_tile_size :: int
  special_constraint :: string
  tiles :: "tile list list"
  address_tiles :: address_index

definition tiles_for_address :: "address_index \<Rightarrow> string \<Rightarrow> tile_coord set" where
  "tiles_for_address idx key = (case idx key of None \<Rightarrow> {} | Some s \<Rightarrow> s)"

definition index_add :: "address_index \<Rightarrow> string \<Rightarrow> tile_coord \<Rightarrow> address_index" where
  "index_add idx key c = idx(key \<mapsto> insert c (tiles_for_address idx key))"

subsection \<open>Construction\<close>

text \<open>
  What \<open>Maze.__init__\<close> has in hand once the meta file, the block tables and the five maze
  layers have been read: the file readers themselves are outside the model.
\<close>

record config =
  meta_maze_width :: int
  meta_maze_height :: int
  meta_sq_tile_size :: int
  meta_special_constraint :: string
  world_block :: string
  sector_blocks :: "string \<rightharpoonup> string"
  arena_blocks :: "string \<rightharpoonup> string"
  object_blocks :: "string \<rightharpoonup> string"
  spawn_blocks :: "string \<rightharpoonup> string"
  collision_raw :: "string list"
  sector_raw :: "string list"
  arena_raw :: "string list"
  object_raw :: "string list"
  spawn_raw :: "string list"

text \<open>\<open>d.get(k, "")\<close>\<close>

definition dict_get :: "(string \<rightharpoonup> string) \<Rightarrow> string \<Rightarrow> string" where
  "dict_get d k = (case d k of None \<Rightarrow> [] | Some v \<Rightarrow> v)"

definition obj_path :: "tile \<Rightarrow> string" where
  "obj_path t = world t @ '':'' @ sector t @ '':'' @ arena t @ '':'' @ game_object t"

text \<open>The tile dictionary built for cell \<open>idx\<close>, with the idle event of its game object.\<close>

definition make_tile :: "config \<Rightarrow> int \<Rightarrow> error + tile" where
  "make_tile cfg idx =
     bnd (py_index (sector_raw cfg) idx) (\<lambda>sc.
     bnd (py_index (arena_raw cfg) idx) (\<lambda>ac.
     bnd (py_index (object_raw cfg) idx) (\<lambda>oc.
     bnd (py_index (spawn_raw cfg) idx) (\<lambda>pc.
     bnd (py_index (collision_raw cfg) idx) (\<lambda>cc.
       let t = \<lparr> world = world_block cfg,
                 sector = dict_get (sector_blocks cfg) sc,
                 arena = dict_get (arena_blocks cfg) ac,
                 game_object = dict_get (object_blocks cfg) oc,
                 spawning_location = dict_get (spawn_blocks cfg) pc,
                 collision = (cc \<noteq> ''0''),
                 events = {} \<rparr>
       in Inr (if game_object t \<noteq> []
               then t\<lparr>events := insert (obj_path t, None, None, None) (events t)\<rparr>
               else t))))))"

definition index_tile_addresses :: "address_index \<Rightarrow> tile \<Rightarrow> int \<Rightarrow> int \<Rightarrow> address_index" where
  "index_tile_addresses idx t x y =
     (let i1 = (if sector t \<noteq> [] then index_add idx (world t @ '':'' @ sector t) (x, y) else idx);
          i2 = (if arena t \<noteq> []
                then index_add i1 (world t @ '':'' @ sector t @ '':'' @ arena t) (x, y) else i1);
          i3 = (if game_object t \<noteq> []
                then index_add i2 (world t @ '':'' @ sector t @ '':'' @ arena t @ '':'' @ game_object t) (x, y)
                else i2)
      in if spawning_location t \<noteq> []
         then index_add i3 (''<spawn_loc>'' @ spawning_location t) (x, y) else i3)"

text \<open>The inner loop \<open>for x in range(maze_width)\<close>, on the columns still to visit.\<close>

fun build_row :: "config \<Rightarrow> int \<Rightarrow> int list \<Rightarrow> tile list \<times> address_index
    \<Rightarrow> error + tile list \<times> address_index" where
  "build_row cfg y [] acc = Inr acc"
| "build_row cfg y (x # xs) acc =
     bnd (make_tile cfg (y * meta_maze_width cfg + x)) (\<lambda>t.
       build_row cfg y xs (fst acc @ [t], index_tile_addresses (snd acc) t x y))"

text \<open>The outer loop \<open>for y in range(maze_height)\<close>, on the rows still to visit.\<close>

fun build_rows :: "config \<Rightarrow> int list \<Rightarrow> tile list list \<times> address_index
    \<Rightarrow> error + tile list list \<times> address_index" where
  "build_rows cfg [] acc = Inr acc"
| "build_rows cfg (y # ys) acc =
     bnd (build_row cfg y (py_range 0 (meta_maze_width cfg)) ([], snd acc)) (\<lambda>r.
       build_rows cfg ys (fst acc @ [fst r], snd r))"

definition maze_init :: "config \<Rightarrow> error + maze" where
  "maze_init cfg =
     bnd (build_rows cfg (py_range 0 (meta_maze_height cfg)) ([], Map.empty)) (\<lambda>r.
       Inr \<lparr> maze_width = meta_maze_width cfg,
             maze_height = meta_maze_height cfg,
             sq_tile_size = meta_sq_tile_size cfg,
             special_constraint = meta_special_constraint cfg,
             tiles = fst r,
             address_tiles = snd r \<rparr>)"

subsection \<open>Queries\<close>

definition access_tile :: "maze \<Rightarrow> tile_coord \<Rightarrow> error + tile" where
  "access_tile mz c = bnd (py_index (tiles mz) (snd c)) (\<lambda>row. py_index row (fst c))"

definition get_tile_path :: "maze \<Rightarrow> tile_coord \<Rightarrow> string \<Rightarrow> error + string" where
  "get_tile_path mz c level =
     bnd (access_tile mz c) (\<lambda>t.
       if level = ''world'' then Inr (world t)
       else if level = ''sector'' then Inr (world t @ '':'' @ sector t)
       else if level = ''arena'' then Inr (world t @ '':'' @ sector t @ '':'' @ arena t)
       else Inr (world t @ '':'' @ sector t @ '':'' @ arena t @ '':'' @ game_object t))"

definition get_nearby_tiles :: "maze \<Rightarrow> tile_coord \<Rightarrow> int \<Rightarrow> tile_coord list" where
  "get_nearby_tiles mz c vision_r =
     (let x = fst c; y = snd c;
          x_min = max 0 (x - vision_r);
          x_max = min (maze_width mz) (x + vision_r + 1);
          y_min = max 0 (y - vision_r);
          y_max = min (maze_height mz) (y + vision_r + 1)
      in [(i, j). i \<leftarrow> py_range x_min x_max, j \<leftarrow> py_range y_min y_max])"

subsection \<open>Event mutation\<close>

text \<open>
  Each operation reads the tile with \<open>access_tile\<close> and mutates its event set in place;
  the model writes the changed tile back at the position that was read.
\<close>

definition update_events :: "maze \<Rightarrow> tile_coord \<Rightarrow> (event set \<Rightarrow> event set) \<Rightarrow> error + maze" where
  "update_events mz c f =
     bnd (py_pos (tiles mz) (snd c)) (\<lambda>r.
     bnd (py_pos (tiles mz ! r) (fst c)) (\<lambda>k.
       let t = tiles mz ! r ! k
       in Inr (mz\<lparr>tiles := (tiles mz)[r := (tiles mz ! r)[k := t\<lparr>events := f (events t)\<rparr>]]\<rparr>)))"

definition add_event_from_tile :: "maze \<Rightarrow> event \<Rightarrow> tile_coord \<Rightarrow> error + maze" where
  "add_event_from_tile mz ev c = update_events mz c (insert ev)"

definition remove_event_from_tile :: "maze \<Rightarrow> event \<Rightarrow> tile_coord \<Rightarrow> error + maze" where
  "remove_event_from_tile mz ev c = update_events mz c (\<lambda>s. s - {ev})"

definition turn_event_from_tile_idle :: "maze \<Rightarrow> event \<Rightarrow> tile_coord \<Rightarrow> error + maze" where
  "turn_event_from_tile_idle mz ev c =
     update_events mz c (\<lambda>s. if ev \<in> s then insert (fst ev, None, None, None) (s - {ev}) else s)"

definition remove_subject_events_from_tile :: "maze \<Rightarrow> string \<Rightarrow> tile_coord \<Rightarrow> error + maze" where
  "remove_subject_events_from_tile mz subject c =
     update_events mz c (Set.filter (\<lambda>ev. fst ev \<noteq> subject))"

subsection \<open>Well-formed mazes\<close>

text \<open>The shape \<open>Maze.__init__\<close> gives the tile array: \<open>maze_height\<close> rows of \<open>maze_width\<close> tiles.\<close>

definition grid_shape :: "maze \<Rightarrow> bool" where
  "grid_shape mz \<longleftrightarrow>
     length (tiles mz) = nat (maze_height mz) \<and>
     list_all (\<lambda>row. length row = nat (maze_width mz)) (tiles mz)"

text \<open>
  The mazes a program can hold: one returned by the constructor, then changed by any
  number of event mutations that returned. A mutation that raises leaves the maze as it
  was, so it adds no state.
\<close>

inductive reachable :: "config \<Rightarrow> maze \<Rightarrow> bool" for cfg :: config where
  r_init: "maze_init cfg = Inr mz \<Longrightarrow> reachable cfg mz"
| r_add: "reachable cfg mz \<Longrightarrow> add_event_from_tile mz ev c = Inr mz' \<Longrightarrow> reachable cfg mz'"
| r_remove: "reachable cfg mz \<Longrightarrow> remove_event_from_tile mz ev c = Inr mz' \<Longrightarrow> reachable cfg mz'"
| r_idle: "reachable cfg mz \<Longrightarrow> turn_event_from_tile_idle mz ev c = Inr mz' \<Longrightarrow> reachable cfg mz'"
| r_remove_subject:
    "reachable cfg mz \<Longrightarrow> remove_subject_events_from_tile mz subject c = Inr mz' \<Longrightarrow> reachable cfg mz'"

subsection \<open>A small world\<close>

text \<open>
  A 3 by 3 town: the sector \<open>park\<close> on every cell, the arena \<open>bench\<close> and the object
  \<open>chessboard\<close> on the middle cell only.
\<close>

definition lawn_tile :: tile where
  "lawn_tile = \<lparr> world = ''Town'', sector = ''park'', arena = [], game_object = [],
                 spawning_location = [], collision = False, events = {} \<rparr>"

definition board_idle :: event where
  "board_idle = (''Town:park:bench:chessboard'', None, None, None)"

definition board_tile :: tile where
  "board_tile = \<lparr> world = ''Town'', sector = ''park'', arena = ''bench'',
                  game_object = ''chessboard'', spawning_location = [], collision = False,
                  events = {board_idle} \<rparr>"

definition town :: config where
  "town = \<lparr> meta_maze_width = 3, meta_maze_height = 3, meta_sq_tile_size = 1,
            meta_special_constraint = [],
            world_block = ''Town'',
            sector_blocks = [''1'' \<mapsto> ''park''],
            arena_blocks = [''2'' \<mapsto> ''bench''],
            object_blocks = [''3'' \<mapsto> ''chessboard''],
            spawn_blocks = Map.empty,
            collision_raw = [''0'', ''0'', ''0'', ''0'', ''0'', ''0'', ''0'', ''0'', ''0''],
            sector_raw = [''1'', ''1'', ''1'', ''1'', ''1'', ''1'', ''1'', ''1'', ''1''],
            arena_raw = [''0'', ''0'', ''0'', ''0'', ''2'', ''0'', ''0'', ''0'', ''0''],
            object_raw = [''0'', ''0'', ''0'', ''0'', ''3'', ''0'', ''0'', ''0'', ''0''],
            spawn_raw = [''0'', ''0'', ''0'', ''0'', ''0'', ''0'', ''0'', ''0'', ''0''] \<rparr>"

definition town_maze :: maze where
  "town_maze = \<lparr> maze_width = 3, maze_height = 3, sq_tile_size = 1, special_constraint = [],
                 tiles = [[lawn_tile, lawn_tile, lawn_tile],
                          [lawn_tile, board_tile, lawn_tile],
                          [lawn_tile, lawn_tile, lawn_tile]],
                 address_tiles =
                   [''Town:park:bench'' \<mapsto> {(1, 1)},
                    ''Town:park:bench:chessboard'' \<mapsto> {(1, 1)},
                    ''Town:park'' \<mapsto> {(2, 2), (1, 2), (0, 2), (2, 1), (1, 1), (0, 1),
                                        (2, 0), (1, 0), (0, 0)}] \<rparr>"

definition town_maze_cleared :: maze where
  "town_maze_cleared =
     town_maze\<lparr>tiles := [[lawn_tile, lawn_tile, lawn_tile],
                          [lawn_tile, board_tile\<lparr>events := {}\<rparr>, lawn_tile],
                          [lawn_tile, lawn_tile, lawn_tile]]\<rparr>"

subsection \<open>Predicates used in the statements\<close>

text \<open>Every one of the five layers has at least \<open>n\<close> cells.\<close>

definition layers_hold :: "config \<Rightarrow> int \<Rightarrow> bool" where
  "layers_hold cfg n \<longleftrightarrow>
     n \<le> int (length (sector_raw cfg)) \<and> n \<le> int (length (arena_raw cfg)) \<and>
     n \<le> int (length (object_raw cfg)) \<and> n \<le> int (length (spawn_raw cfg)) \<and>
     n \<le> int (length (collision_raw cfg))"

text \<open>The key under which a tile is indexed at arena granularity.\<close>

definition arena_key :: "tile \<Rightarrow> string" where
  "arena_key t = world t @ '':'' @ sector t @ '':'' @ arena t"

text \<open>Every tile with an arena is found under its arena address, at its own position.\<close>

definition arena_indexed :: "maze \<Rightarrow> bool" where
  "arena_indexed mz \<longleftrightarrow>
     (\<forall>j < length (tiles mz). \<forall>i < length (tiles mz ! j).
        arena (tiles mz ! j ! i) \<noteq> [] \<longrightarrow>
        (int i, int j) \<in> tiles_for_address (address_tiles mz) (arena_key (tiles mz ! j ! i)))"

text \<open>
  The town's nine-cell layers read with other dimensions: as a 2 by 2 grid (five cells of
  every layer are never read) and as a 4 by 3 grid (every layer is three cells short).
\<close>

definition alley :: config where
  "alley = town\<lparr>meta_maze_width := 2, meta_maze_height := 2\<rparr>"

definition alley_maze :: maze where
  "alley_maze = \<lparr> maze_width = 2, maze_height = 2, sq_tile_size = 1, special_constraint = [],
                  tiles = [[lawn_tile, lawn_tile], [lawn_tile, lawn_tile]],
                  address_tiles = [''Town:park'' \<mapsto> {(1, 1), (0, 1), (1, 0), (0, 0)}] \<rparr>"

definition wide_town :: config where
  "wide_town = town\<lparr>meta_maze_width := 4\<rparr>"

section \<open>Dates (Python's datetime)\<close>

text \<open>
  A \<open>datetime\<close> value, with the fields the code reads. The calendar functions follow the
  standard library: the proleptic Gregorian ordinal of a date, and Monday as weekday 0.
\<close>

record datetime =
  year :: int
  month :: int
  day :: int
  hour :: int
  minute :: int
  second :: int

definition is_leap :: "int \<Rightarrow> bool" where
  "is_leap y \<longleftrightarrow> y mod 4 = 0 \<and> (y mod 100 \<noteq> 0 \<or> y mod 400 = 0)"

definition DAYS_IN_MONTH :: "int list" where
  "DAYS_IN_MONTH = [- 1, 31, 28, 31, 30, 31, 30, 31, 31, 30, 31, 30, 31]"

definition DAYS_BEFORE_MONTH :: "int list" where
  "DAYS_BEFORE_MONTH = [- 1, 0, 31, 59, 90, 120, 151, 181, 212, 243, 273, 304, 334]"

definition days_in_month :: "int \<Rightarrow> int \<Rightarrow> int" where
  "days_in_month y m = (if m = 2 \<and> is_leap y then 29 else DAYS_IN_MONTH ! nat m)"

definition days_before_year :: "int \<Rightarrow> int" where
  "days_before_year y = (y - 1) * 365 + (y - 1) div 4 - (y - 1) div 100 + (y - 1) div 400"

definition days_before_month :: "int \<Rightarrow> int \<Rightarrow> int" where
  "days_before_month y m = DAYS_BEFORE_MONTH ! nat m + (if m > 2 \<and> is_leap y then 1 else 0)"

definition toordinal :: "datetime \<Rightarrow> int" where
  "toordinal d = days_before_year (year d) + days_before_month (year d) (month d) + day d"

definition weekday :: "datetime \<Rightarrow> int" where
  "weekday d = (toordinal d + 6) mod 7"

text \<open>The values a \<open>datetime\<close> object can hold: its constructor rejects all others.\<close>

definition valid_datetime :: "datetime \<Rightarrow> bool" where
  "valid_datetime d \<longleftrightarrow>
     1 \<le> year d \<and> year d \<le> 9999 \<and> 1 \<le> month d \<and> month d \<le> 12 \<and>
     1 \<le> day d \<and> day d \<le> days_in_month (year d) (month d) \<and>
     0 \<le> hour d \<and> hour d < 24 \<and> 0 \<le> minute d \<and> minute d < 60 \<and>
     0 \<le> second d \<and> second d < 60"

text \<open>
  \<open>strftime("%A %B %d")\<close>: the full weekday name, the full month name and the day of the
  month on two digits, in the C locale.
\<close>

definition day_names :: "string list" where
  "day_names = [''Monday'', ''Tuesday'', ''Wednesday'', ''Thursday'', ''Friday'', ''Saturday'',
                ''Sunday'']"

definition month_names :: "string list" where
  "month_names = [''January'', ''February'', ''March'', ''April'', ''May'', ''June'', ''July'',
                  ''August'', ''September'', ''October'', ''November'', ''December'']"

definition two_digits :: "int \<Rightarrow> string" where
  "two_digits n = [''0123456789'' ! nat (n div 10), ''0123456789'' ! nat (n mod 10)]"

definition strftime_A_B_d :: "datetime \<Rightarrow> string" where
  "strftime_A_B_d d =
     day_names ! nat (weekday d) @ '' '' @ month_names ! nat (month d - 1) @ '' '' @
     two_digits (day d)"

text \<open>Four dates: two New Year's days six years apart, and two consecutive days.\<close>

definition new_year_2017 :: datetime where
  "new_year_2017 = \<lparr> year = 2017, month = 1, day = 1, hour = 9, minute = 30, second = 0 \<rparr>"

definition new_year_2023 :: datetime where
  "new_year_2023 = \<lparr> year = 2023, month = 1, day = 1, hour = 9, minute = 30, second = 0 \<rparr>"

definition feb_13 :: datetime where
  "feb_13 = \<lparr> year = 2023, month = 2, day = 13, hour = 23, minute = 59, second = 50 \<rparr>"

definition feb_14 :: datetime where
  "feb_14 = \<lparr> year = 2023, month = 2, day = 14, hour = 0, minute = 0, second = 0 \<rparr>"

section \<open>The persona (persona.py)\<close>

text \<open>
  The value of \<open>new_day\<close>: \<open>False\<close>, \<open>"First day"\<close> or \<open>"New day"\<close>.
\<close>

datatype day_flag = NoSignal | FirstDay | NewDay

text \<open>
  The persona's state: the two scratch fields \<open>move\<close> writes, and everything else it owns
  (spatial and associative memory, the other scratch fields) as \<open>memory\<close>.
\<close>

record 'm persona =
  curr_tile :: "tile_coord option"
  curr_time :: "datetime option"
  memory :: 'm

text \<open>
  A cognitive module is code outside \<open>persona.py\<close>. It receives the persona, may mutate it,
  and returns a value or raises; what it did to the persona stays when it raises.
\<close>

type_synonym ('m, 'a) module = "'m persona \<Rightarrow> 'm persona \<times> (error + 'a)"

record ('m, 'w, 'p, 'v) cognition =
  perceive :: "'w \<Rightarrow> ('m, 'v) module"
  retrieve :: "'v \<Rightarrow> ('m, 'v) module"
  plan :: "'w \<Rightarrow> 'p \<Rightarrow> day_flag \<Rightarrow> 'v \<Rightarrow> ('m, 'v) module"
  reflect :: "('m, unit) module"
  execute :: "'w \<Rightarrow> 'p \<Rightarrow> 'v \<Rightarrow> ('m, 'v) module"

text \<open>
  The calls \<open>move\<close> makes are recorded, in order, beside the persona: \<open>call\<close> runs a module
  and notes its name, \<open>seq\<close> continues after a call that returned and stops after one that
  raised, as the exception leaving \<open>move\<close> does.
\<close>

datatype step = Perceive | Retrieve | Plan | Reflect | Execute

type_synonym 'm run = "'m persona \<times> step list"

definition call :: "step \<Rightarrow> ('m, 'a) module \<Rightarrow> 'm run \<Rightarrow> 'm run \<times> (error + 'a)" where
  "call st f s = ((fst (f (fst s)), snd s @ [st]), snd (f (fst s)))"

definition seq :: "'m run \<times> (error + 'a) \<Rightarrow> ('a \<Rightarrow> 'm run \<Rightarrow> 'm run \<times> (error + 'b))
    \<Rightarrow> 'm run \<times> (error + 'b)" where
  "seq r f = (case snd r of Inl e \<Rightarrow> (fst r, Inl e) | Inr v \<Rightarrow> f v (fst r))"

text \<open>The first lines of \<open>move\<close>: the position, the day flag, the time.\<close>

definition update_scratch :: "tile_coord \<Rightarrow> datetime \<Rightarrow> 'm persona \<Rightarrow> day_flag \<times> 'm persona" where
  "update_scratch tile time p =
     (let p1 = p\<lparr>curr_tile := Some tile\<rparr>;
          new_day = (case curr_time p1 of
                       None \<Rightarrow> FirstDay
                     | Some prev \<Rightarrow>
                         if strftime_A_B_d prev \<noteq> strftime_A_B_d time then NewDay else NoSignal)
      in (new_day, p1\<lparr>curr_time := Some time\<rparr>))"

definition move :: "('m, 'w, 'p, 'v) cognition \<Rightarrow> 'w \<Rightarrow> 'p \<Rightarrow> tile_coord \<Rightarrow> datetime
    \<Rightarrow> 'm persona \<Rightarrow> 'm run \<times> (error + 'v)" where
  "move C maze personas tile time p =
     (let new_day = fst (update_scratch tile time p);
          p' = snd (update_scratch tile time p)
      in seq (call Perceive (perceive C maze) (p', [])) (\<lambda>perceived s1.
         seq (call Retrieve (retrieve C perceived) s1) (\<lambda>retrieved s2.
         seq (call Plan (plan C maze personas new_day retrieved) s2) (\<lambda>plan_result s3.
         seq (call Reflect (reflect C) s3) (\<lambda>_ s4.
         call Execute (execute C maze personas plan_result) s4)))))"



text \<open>
  Two sets of modules for a persona whose memory is a counter: one in which every module
  returns, one in which planning raises after it touched the memory.
\<close>

definition steady :: "(nat, maze, unit, string) cognition" where
  "steady = \<lparr> perceive = (\<lambda>maze p. (p\<lparr>memory := memory p + 1\<rparr>, Inr ''seen'')),
              retrieve = (\<lambda>perceived p. (p, Inr perceived)),
              plan = (\<lambda>maze personas new_day retrieved p.
                        (p, Inr (if new_day = NoSignal then ''stay'' else ''wake up''))),
              reflect = (\<lambda>p. (p\<lparr>memory := memory p + 10\<rparr>, Inr ())),
              execute = (\<lambda>maze personas plan_result p. (p, Inr plan_result)) \<rparr>"

definition faulty_plan :: "(nat, maze, unit, string) cognition" where
  "faulty_plan = steady\<lparr> plan := (\<lambda>maze personas new_day retrieved p.
      (p\<lparr>memory := memory p + 100\<rparr>, Inl (CollaboratorFailure ''plan''))) \<rparr>"

definition sleeper :: "nat persona" where
  "sleeper = \<lparr> curr_tile = None, curr_time = Some feb_13, memory = 0 \<rparr>"


section \<open>Pixel coordinates\<close>

text \<open>
  \<open>px / sq_tile_size\<close> is Python's true division of two integers: the double nearest to
  the exact quotient (ties to the even mantissa), ZeroDivisionError for a zero divisor,
  OverflowError when the result is beyond the doubles. A double is modelled by the
  rational it stands for: 53 bits of mantissa, the smallest exponent \<open>-1074\<close>.
  \<open>floor_log2 n d\<close> is the exponent of \<open>n / d\<close> for positive \<open>n\<close> and \<open>d\<close>.
\<close>

definition floor_log2 :: "int \<Rightarrow> int \<Rightarrow> int" where
  "floor_log2 n d =
     (let e0 = bitlen n - bitlen d
      in if (of_int d :: rat) * 2 powi e0 \<le> of_int n then e0 else e0 - 1)"

definition round_half_even :: "rat \<Rightarrow> int" where
  "round_half_even x =
     (let f = \<lfloor>x\<rfloor>; r = x - of_int f
      in if r < 1 / 2 then f else if 1 / 2 < r then f + 1 else if even f then f else f + 1)"

definition nearest_double :: "int \<Rightarrow> int \<Rightarrow> rat" where
  "nearest_double a b =
     (if a = 0 then 0
      else let p = max (floor_log2 \<bar>a\<bar> \<bar>b\<bar> - 52) (- 1074)
           in of_int (round_half_even (of_int a / of_int b / 2 powi p)) * 2 powi p)"

definition true_div :: "int \<Rightarrow> int \<Rightarrow> error + rat" where
  "true_div a b =
     (if b = 0 then Inl ZeroDivisionError
      else let r = nearest_double a b
           in if 2 ^ 1024 \<le> \<bar>r\<bar> then Inl OverflowError else Inr r)"

text \<open>\<open>Maze.turn_coordinate_to_tile\<close>: \<open>math.ceil\<close> of each quotient.\<close>

definition turn_coordinate_to_tile :: "maze \<Rightarrow> int \<times> int \<Rightarrow> error + tile_coord" where
  "turn_coordinate_to_tile mz px =
     bnd (true_div (fst px) (sq_tile_size mz)) (\<lambda>qx.
     bnd (true_div (snd px) (sq_tile_size mz)) (\<lambda>qy.
       Inr (\<lceil>qx\<rceil>, \<lceil>qy\<rceil>)))"

text \<open>The town with tiles of 32 pixels.\<close>

definition tiled_maze :: maze where
  "tiled_maze = town_maze\<lparr>sq_tile_size := 32\<rparr>"


section \<open>Properties of the maze\<close>

subsection \<open>Sequencing and indexing\<close>

lemma bnd_Inr_iff: "bnd r f = Inr v \<longleftrightarrow> (\<exists>a. r = Inr a \<and> f a = Inr v)"
  by (cases r) (simp_all add: bnd_def)

lemma bnd_Inr [simp]: "bnd (Inr a) f = f a"
  by (simp add: bnd_def)

lemma bnd_Inl [simp]: "bnd (Inl e) f = Inl e"
  by (simp add: bnd_def)

lemma length_py_range: "length (py_range a b) = nat (b - a)"
  by (simp add: py_range_def)

subsection \<open>The constructor builds a full grid, and mutations keep it\<close>

lemma build_row_length:
  "build_row cfg y xs acc = Inr r \<Longrightarrow> length (fst r) = length (fst acc) + length xs"
proof (induction xs arbitrary: acc)
  case Nil
  then show ?case by simp
next
  case (Cons x xs)
  from Cons.prems obtain t where
    "build_row cfg y xs (fst acc @ [t], index_tile_addresses (snd acc) t x y) = Inr r"
    by (auto simp: bnd_Inr_iff)
  from Cons.IH [OF this] show ?case by simp
qed

lemma build_rows_shape:
  assumes "build_rows cfg ys acc = Inr r"
    and "list_all (\<lambda>row. length row = nat (meta_maze_width cfg)) (fst acc)"
  shows "length (fst r) = length (fst acc) + length ys \<and>
         list_all (\<lambda>row. length row = nat (meta_maze_width cfg)) (fst r)"
  using assms
proof (induction ys arbitrary: acc)
  case Nil
  then show ?case by simp
next
  case (Cons y ys)
  from Cons.prems(1) obtain row where
    row: "build_row cfg y (py_range 0 (meta_maze_width cfg)) ([], snd acc) = Inr row"
    and rest: "build_rows cfg ys (fst acc @ [fst row], snd row) = Inr r"
    by (auto simp: bnd_Inr_iff)
  have "length (fst row) = nat (meta_maze_width cfg)"
    using build_row_length [OF row] by (simp add: length_py_range)
  with Cons.prems(2) have "list_all (\<lambda>row. length row = nat (meta_maze_width cfg))
      (fst (fst acc @ [fst row], snd row))"
    by simp
  from Cons.IH [OF rest this] show ?case by simp
qed

lemma maze_init_shape:
  assumes "maze_init cfg = Inr mz"
  shows "grid_shape mz"
proof -
  from assms obtain r where
    r: "build_rows cfg (py_range 0 (meta_maze_height cfg)) ([], Map.empty) = Inr r"
    and mz: "mz = \<lparr> maze_width = meta_maze_width cfg, maze_height = meta_maze_height cfg,
             sq_tile_size = meta_sq_tile_size cfg,
             special_constraint = meta_special_constraint cfg,
             tiles = fst r, address_tiles = snd r \<rparr>"
    by (auto simp: maze_init_def bnd_Inr_iff)
  from build_rows_shape [OF r] show ?thesis
    by (simp add: mz grid_shape_def length_py_range)
qed

lemma update_events_frame:
  assumes "update_events mz c f = Inr mz'"
  shows "maze_width mz' = maze_width mz \<and> maze_height mz' = maze_height mz \<and>
         address_tiles mz' = address_tiles mz \<and> sq_tile_size mz' = sq_tile_size mz"
  using assms by (auto simp: update_events_def bnd_Inr_iff Let_def)

lemma update_events_shape:
  assumes "update_events mz c f = Inr mz'" and "grid_shape mz"
  shows "grid_shape mz'"
proof -
  from assms(1) obtain r k where
    r: "py_pos (tiles mz) (snd c) = Inr r" and
    mz': "mz' = mz\<lparr>tiles := (tiles mz)[r := (tiles mz ! r)[k :=
        (tiles mz ! r ! k)\<lparr>events := f (events (tiles mz ! r ! k))\<rparr>]]\<rparr>"
    by (auto simp: update_events_def bnd_Inr_iff Let_def)
  from r have "r < length (tiles mz)"
    by (auto simp: py_pos_def split: if_splits)
  with assms(2) show ?thesis
    by (auto simp: mz' grid_shape_def list_all_length nth_list_update)
qed

lemma reachable_shape: "reachable cfg mz \<Longrightarrow> grid_shape mz"
  by (induction rule: reachable.induct)
    (auto simp: maze_init_shape add_event_from_tile_def remove_event_from_tile_def
      turn_event_from_tile_idle_def remove_subject_events_from_tile_def
      intro: update_events_shape)

lemma access_tile_inside:
  assumes "grid_shape mz" "0 \<le> x" "x < maze_width mz" "0 \<le> y" "y < maze_height mz"
  shows "access_tile mz (x, y) = Inr (tiles mz ! nat y ! nat x)"
  using assms
  by (auto simp: access_tile_def py_index_def py_pos_def grid_shape_def list_all_length)

lemma update_events_inside:
  assumes "grid_shape mz" "0 \<le> x" "x < maze_width mz" "0 \<le> y" "y < maze_height mz"
  shows "update_events mz (x, y) f =
         Inr (mz\<lparr>tiles := (tiles mz)[nat y := (tiles mz ! nat y)[nat x :=
           (tiles mz ! nat y ! nat x)\<lparr>events := f (events (tiles mz ! nat y ! nat x))\<rparr>]]\<rparr>)"
  using assms
  by (auto simp: update_events_def py_pos_def grid_shape_def list_all_length Let_def)

lemma town_init: "maze_init town = Inr town_maze"
  by (simp add: town_def town_maze_def maze_init_def py_range_def make_tile_def
      py_index_def py_pos_def index_tile_addresses_def index_add_def tiles_for_address_def
      dict_get_def obj_path_def lawn_tile_def board_tile_def board_idle_def upto.simps)

lemma town_reachable: "reachable town town_maze"
  by (rule r_init) (rule town_init)

lemma town_dims: "maze_width town_maze = 3" "maze_height town_maze = 3"
  by (simp_all add: town_maze_def)

lemma town_board: "access_tile town_maze (1, 1) = Inr board_tile"
  by (simp add: access_tile_def py_index_def py_pos_def town_maze_def)

lemma town_lawn: "access_tile town_maze (0, 2) = Inr lawn_tile"
  by (simp add: access_tile_def py_index_def py_pos_def town_maze_def)

subsection \<open>Tile access\<close>

text \<open>
  Claim C3, as amended. On a maze built by the constructor (and mutated since), a
  coordinate \<open>(x, y)\<close> with \<open>x \<ge> width\<close>, \<open>x < -width\<close>, \<open>y \<ge> height\<close> or \<open>y < -height\<close>
  makes \<open>access_tile\<close> raise IndexError: no tile is returned, by clamping or otherwise.
  The claim as written also covers the negative coordinates down to \<open>-width\<close> and
  \<open>-height\<close>, which the list indexing reads from the end: see the counterexample.
\<close>

theorem access_tile_out_of_range:
  assumes "reachable cfg mz"
    and "maze_width mz \<le> x \<or> x < - maze_width mz \<or> maze_height mz \<le> y \<or> y < - maze_height mz"
  shows "access_tile mz (x, y) = Inl IndexError"
proof -
  have "grid_shape mz" using assms(1) by (rule reachable_shape)
  then have len: "length (tiles mz) = nat (maze_height mz)"
    and rows: "\<And>r. r < length (tiles mz) \<Longrightarrow> length (tiles mz ! r) = nat (maze_width mz)"
    by (auto simp: grid_shape_def list_all_length)
  show ?thesis
  proof (cases "py_pos (tiles mz) y")
    case (Inl e)
    then have "e = IndexError" by (auto simp: py_pos_def split: if_splits)
    with Inl show ?thesis by (simp add: access_tile_def py_index_def)
  next
    case (Inr r)
    then have "r < length (tiles mz)" and "- maze_height mz \<le> y" and "y < maze_height mz"
      using len by (auto simp: py_pos_def split: if_splits)
    with assms(2) rows have "py_pos (tiles mz ! r) x = Inl IndexError"
      by (auto simp: py_pos_def)
    with Inr show ?thesis by (simp add: access_tile_def py_index_def)
  qed
qed

theorem access_tile_out_of_range_witness:
  "reachable town town_maze \<and>
   (maze_width town_maze \<le> 3 \<or> 3 < - maze_width town_maze \<or> maze_height town_maze \<le> 1 \<or>
    1 < - maze_height town_maze) \<and>
   access_tile town_maze (3, 1) = Inl IndexError \<and>
   access_tile town_maze (- 4, 1) = Inl IndexError"
  using access_tile_out_of_range [OF town_reachable, of 3 1]
    access_tile_out_of_range [OF town_reachable, of "- 4" 1] town_reachable
  by (simp add: town_dims)

text \<open>
  The claim C3 as written fails: the coordinate \<open>(-2, -2)\<close> is outside the 3 by 3 grid,
  and \<open>access_tile\<close> returns the tile of \<open>(1, 1)\<close>.
\<close>

theorem access_tile_negative_counterexample:
  "maze_init town = Inr town_maze \<and> maze_width town_maze = 3 \<and> maze_height town_maze = 3 \<and>
   access_tile town_maze (- 2, - 2) = Inr board_tile \<and>
   access_tile town_maze (1, 1) = Inr board_tile"
  by (simp add: town_init town_dims town_board)
     (simp add: access_tile_def py_index_def py_pos_def town_maze_def)

subsection \<open>Addresses\<close>



subsection \<open>Nearby tiles\<close>

lemma get_nearby_tiles_product:
  "get_nearby_tiles mz (x, y) r =
     List.product (py_range (max 0 (x - r)) (min (maze_width mz) (x + r + 1)))
                  (py_range (max 0 (y - r)) (min (maze_height mz) (y + r + 1)))"
  by (simp add: get_nearby_tiles_def product_concat_map)

lemma get_nearby_tiles_set:
  "set (get_nearby_tiles mz (x, y) r) =
     {(i, j). x - r \<le> i \<and> i \<le> x + r \<and> y - r \<le> j \<and> j \<le> y + r \<and>
              0 \<le> i \<and> i < maze_width mz \<and> 0 \<le> j \<and> j < maze_height mz}"
  by (auto simp: get_nearby_tiles_product py_range_def)

lemma get_nearby_tiles_distinct: "distinct (get_nearby_tiles mz (x, y) r)"
  by (simp add: get_nearby_tiles_product distinct_product py_range_def)

lemma get_nearby_tiles_length:
  assumes "0 \<le> x" "x < maze_width mz" "0 \<le> y" "y < maze_height mz" "0 \<le> r"
  shows "int (length (get_nearby_tiles mz (x, y) r)) =
           (min (maze_width mz) (x + r + 1) - max 0 (x - r)) *
           (min (maze_height mz) (y + r + 1) - max 0 (y - r))"
  using assms by (simp add: get_nearby_tiles_product length_py_range min_def max_def)

text \<open>
  Claim C6. For a centre \<open>(x, y)\<close> inside the grid and a radius \<open>r \<ge> 0\<close>, the list
  \<open>get_nearby_tiles\<close> returns holds exactly the coordinates of the square
  \<open>[x - r, x + r] \<times> [y - r, y + r]\<close> that lie inside the grid, each once; the centre is
  among them; there are at most \<open>(2r + 1)\<^sup>2\<close> of them, and exactly that many when the
  square lies inside the grid.
\<close>

theorem get_nearby_tiles_square:
  assumes "0 \<le> x" "x < maze_width mz" "0 \<le> y" "y < maze_height mz" "0 \<le> r"
  shows "set (get_nearby_tiles mz (x, y) r) =
           {(i, j). x - r \<le> i \<and> i \<le> x + r \<and> y - r \<le> j \<and> j \<le> y + r \<and>
                    0 \<le> i \<and> i < maze_width mz \<and> 0 \<le> j \<and> j < maze_height mz} \<and>
         distinct (get_nearby_tiles mz (x, y) r) \<and>
         (x, y) \<in> set (get_nearby_tiles mz (x, y) r) \<and>
         int (length (get_nearby_tiles mz (x, y) r)) \<le> (2 * r + 1)\<^sup>2 \<and>
         (0 \<le> x - r \<and> x + r < maze_width mz \<and> 0 \<le> y - r \<and> y + r < maze_height mz \<longrightarrow>
            int (length (get_nearby_tiles mz (x, y) r)) = (2 * r + 1)\<^sup>2)"
proof -
  define dx dy where
    "dx = min (maze_width mz) (x + r + 1) - max 0 (x - r)" and
    "dy = min (maze_height mz) (y + r + 1) - max 0 (y - r)"
  have len: "int (length (get_nearby_tiles mz (x, y) r)) = dx * dy"
    unfolding dx_def dy_def using assms by (rule get_nearby_tiles_length)
  have centre: "(x, y) \<in> set (get_nearby_tiles mz (x, y) r)"
    using assms by (simp add: get_nearby_tiles_set)
  have bounds: "0 \<le> dx" "dx \<le> 2 * r + 1" "0 \<le> dy" "dy \<le> 2 * r + 1"
    using assms by (auto simp: dx_def dy_def)
  have "dx * dy \<le> (2 * r + 1) * (2 * r + 1)"
    using bounds assms(5) by (intro mult_mono) auto
  then have upper: "int (length (get_nearby_tiles mz (x, y) r)) \<le> (2 * r + 1)\<^sup>2"
    by (simp add: len power2_eq_square)
  have full: "int (length (get_nearby_tiles mz (x, y) r)) = (2 * r + 1)\<^sup>2"
    if "0 \<le> x - r \<and> x + r < maze_width mz \<and> 0 \<le> y - r \<and> y + r < maze_height mz"
  proof -
    from that have "dx = 2 * r + 1" "dy = 2 * r + 1"
      by (auto simp: dx_def dy_def)
    then show ?thesis by (simp add: len power2_eq_square)
  qed
  from get_nearby_tiles_set get_nearby_tiles_distinct centre upper full
  show ?thesis by blast
qed

theorem get_nearby_tiles_square_witness:
  "(0::int) \<le> 1 \<and> 1 < maze_width town_maze \<and> 1 < maze_height town_maze \<and>
   0 \<le> (1::int) - 1 \<and> 1 + 1 < maze_width town_maze \<and> 1 + 1 < maze_height town_maze \<and>
   int (length (get_nearby_tiles town_maze (1, 1) 1)) = 9 \<and>
   (1, 1) \<in> set (get_nearby_tiles town_maze (1, 1) 1) \<and>
   get_nearby_tiles town_maze (0, 2) 1 = [(0, 1), (0, 2), (1, 1), (1, 2)]"
proof -
  have "get_nearby_tiles town_maze (0, 2) 1 = [(0, 1), (0, 2), (1, 1), (1, 2)]"
    by (simp add: get_nearby_tiles_def town_dims py_range_def upto.simps)
  then show ?thesis
    using get_nearby_tiles_square [of 1 town_maze 1 1] by (simp add: town_dims)
qed

subsection \<open>Events\<close>

text \<open>
  Claim C2, as amended. At a coordinate inside the grid, \<open>add_event_from_tile\<close> followed by
  \<open>remove_event_from_tile\<close> with the same event leaves the tile with its earlier event set
  less that event, and the whole maze as it was when the event was not on the tile before.
\<close>

theorem add_then_remove_event:
  assumes "reachable cfg mz"
    and "0 \<le> x" "x < maze_width mz" "0 \<le> y" "y < maze_height mz"
  shows "\<exists>t m1 m2. access_tile mz (x, y) = Inr t \<and>
           add_event_from_tile mz ev (x, y) = Inr m1 \<and>
           remove_event_from_tile m1 ev (x, y) = Inr m2 \<and>
           access_tile m2 (x, y) = Inr (t\<lparr>events := events t - {ev}\<rparr>) \<and>
           (ev \<notin> events t \<longrightarrow> m2 = mz)"
proof -
  define t where "t = tiles mz ! nat y ! nat x"
  define m1 where "m1 = mz\<lparr>tiles := (tiles mz)[nat y := (tiles mz ! nat y)[nat x :=
      t\<lparr>events := insert ev (events t)\<rparr>]]\<rparr>"
  define m2 where "m2 = m1\<lparr>tiles := (tiles m1)[nat y := (tiles m1 ! nat y)[nat x :=
      (tiles m1 ! nat y ! nat x)\<lparr>events := events (tiles m1 ! nat y ! nat x) - {ev}\<rparr>]]\<rparr>"
  have shape: "grid_shape mz" using assms(1) by (rule reachable_shape)
  then have ylen: "nat y < length (tiles mz)" and xlen: "nat x < length (tiles mz ! nat y)"
    using assms(2-5) by (auto simp: grid_shape_def list_all_length)
  have acc: "access_tile mz (x, y) = Inr t"
    unfolding t_def using shape assms(2-5) by (rule access_tile_inside)
  have add: "add_event_from_tile mz ev (x, y) = Inr m1"
    unfolding add_event_from_tile_def m1_def t_def
    using shape assms(2-5) by (rule update_events_inside)
  have dims: "maze_width m1 = maze_width mz" "maze_height m1 = maze_height mz"
    by (simp_all add: m1_def)
  have shape1: "grid_shape m1"
    using add shape unfolding add_event_from_tile_def by (rule update_events_shape)
  have rem: "remove_event_from_tile m1 ev (x, y) = Inr m2"
    unfolding remove_event_from_tile_def m2_def
    using shape1 assms(2-5) by (intro update_events_inside) (simp_all add: dims)
  have dims2: "maze_width m2 = maze_width mz" "maze_height m2 = maze_height mz"
    by (simp_all add: m2_def m1_def)
  have shape2: "grid_shape m2"
    using rem shape1 unfolding remove_event_from_tile_def by (rule update_events_shape)
  have cell1: "tiles m1 ! nat y ! nat x = t\<lparr>events := insert ev (events t)\<rparr>"
    using ylen xlen by (simp add: m1_def)
  have cell2: "tiles m2 ! nat y ! nat x = t\<lparr>events := events t - {ev}\<rparr>"
    using ylen xlen by (simp add: m2_def cell1) (simp add: m1_def)
  have acc2: "access_tile m2 (x, y) = Inr (t\<lparr>events := events t - {ev}\<rparr>)"
    using access_tile_inside [OF shape2, of x y] assms(2-5) by (simp add: dims2 cell2)
  have same: "m2 = mz" if "ev \<notin> events t"
  proof -
    from that have "t\<lparr>events := events t - {ev}\<rparr> = t" by simp
    then have "tiles m2 = tiles mz"
      using ylen xlen by (simp add: m2_def cell1) (simp add: m1_def t_def)
    then show ?thesis by (simp add: m2_def m1_def)
  qed
  from acc add rem acc2 same show ?thesis by blast
qed

theorem add_then_remove_event_witness:
  "reachable town town_maze \<and> (0::int) \<le> 0 \<and> 0 < maze_width town_maze \<and>
   (0::int) \<le> 2 \<and> 2 < maze_height town_maze \<and>
   access_tile town_maze (0, 2) = Inr lawn_tile \<and> board_idle \<notin> events lawn_tile \<and>
   (\<exists>m1. add_event_from_tile town_maze board_idle (0, 2) = Inr m1 \<and>
      remove_event_from_tile m1 board_idle (0, 2) = Inr town_maze)"
proof -
  have w: "(0::int) < maze_width town_maze" and h: "(2::int) < maze_height town_maze"
    by (simp_all add: town_dims)
  have "board_idle \<notin> events lawn_tile" by (simp add: lawn_tile_def)
  with add_then_remove_event [OF town_reachable _ w _ h, of board_idle] town_lawn
  show ?thesis using town_reachable w h by auto
qed

text \<open>
  The claim C2 as written fails on a tile that already holds the event: the chessboard
  tile starts with its idle event, adding that event changes nothing, and removing it
  leaves the tile with no event.
\<close>

theorem add_then_remove_event_counterexample:
  "maze_init town = Inr town_maze \<and>
   access_tile town_maze (1, 1) = Inr board_tile \<and> events board_tile = {board_idle} \<and>
   add_event_from_tile town_maze board_idle (1, 1) = Inr town_maze \<and>
   remove_event_from_tile town_maze board_idle (1, 1) = Inr town_maze_cleared \<and>
   access_tile town_maze_cleared (1, 1) = Inr (board_tile\<lparr>events := {}\<rparr>) \<and>
   events (board_tile\<lparr>events := {}\<rparr>) \<noteq> events board_tile"
  by (simp add: town_init town_board)
     (simp add: access_tile_def py_index_def py_pos_def town_maze_def town_maze_cleared_def
       add_event_from_tile_def remove_event_from_tile_def update_events_def board_tile_def)

section \<open>Properties of the constructor\<close>

subsection \<open>When the constructor returns\<close>

lemma py_index_error: "py_index xs i = Inl e \<Longrightarrow> e = IndexError"
  by (auto simp: py_index_def py_pos_def split: if_splits)

lemma bnd_Inl_iff: "bnd r f = Inl e \<longleftrightarrow> r = Inl e \<or> (\<exists>a. r = Inr a \<and> f a = Inl e)"
  by (cases r) simp_all

lemma make_tile_error: "make_tile cfg idx = Inl e \<Longrightarrow> e = IndexError"
  by (auto simp: make_tile_def bnd_Inl_iff Let_def dest: py_index_error split: if_splits)

lemma make_tile_succeeds:
  assumes "0 \<le> idx"
  shows "(\<exists>t. make_tile cfg idx = Inr t) \<longleftrightarrow> layers_hold cfg (idx + 1)"
proof -
  have ok: "(\<exists>v. py_index xs idx = Inr v) \<longleftrightarrow> idx + 1 \<le> int (length xs)"
    for xs :: "string list"
    using assms by (auto simp: py_index_def py_pos_def)
  show ?thesis
  proof
    assume "\<exists>t. make_tile cfg idx = Inr t"
    then have "(\<exists>v. py_index (sector_raw cfg) idx = Inr v) \<and>
        (\<exists>v. py_index (arena_raw cfg) idx = Inr v) \<and>
        (\<exists>v. py_index (object_raw cfg) idx = Inr v) \<and>
        (\<exists>v. py_index (spawn_raw cfg) idx = Inr v) \<and>
        (\<exists>v. py_index (collision_raw cfg) idx = Inr v)"
      by (auto simp: make_tile_def bnd_Inr_iff)
    then show "layers_hold cfg (idx + 1)"
      unfolding ok layers_hold_def by simp
  next
    assume "layers_hold cfg (idx + 1)"
    then obtain sc ac oc pc cc where
      "py_index (sector_raw cfg) idx = Inr sc" "py_index (arena_raw cfg) idx = Inr ac"
      "py_index (object_raw cfg) idx = Inr oc" "py_index (spawn_raw cfg) idx = Inr pc"
      "py_index (collision_raw cfg) idx = Inr cc"
      unfolding layers_hold_def ok [symmetric] by blast
    then show "\<exists>t. make_tile cfg idx = Inr t"
      by (simp add: make_tile_def Let_def)
  qed
qed

lemma build_row_error: "build_row cfg y xs acc = Inl e \<Longrightarrow> e = IndexError"
  by (induction xs arbitrary: acc) (auto simp: bnd_Inl_iff dest: make_tile_error)

lemma build_rows_error: "build_rows cfg ys acc = Inl e \<Longrightarrow> e = IndexError"
  by (induction ys arbitrary: acc) (auto simp: bnd_Inl_iff dest: build_row_error)

lemma maze_init_error: "maze_init cfg = Inl e \<Longrightarrow> e = IndexError"
  by (auto simp: maze_init_def bnd_Inl_iff dest: build_rows_error)

lemma build_row_succeeds:
  "(\<exists>r. build_row cfg y xs acc = Inr r) \<longleftrightarrow>
   (\<forall>x \<in> set xs. \<exists>t. make_tile cfg (y * meta_maze_width cfg + x) = Inr t)"
proof (induction xs arbitrary: acc)
  case Nil
  then show ?case by simp
next
  case (Cons x xs)
  show ?case
  proof (cases "make_tile cfg (y * meta_maze_width cfg + x)")
    case (Inl e)
    then show ?thesis by simp
  next
    case (Inr t)
    then show ?thesis
      using Cons.IH [of "(fst acc @ [t], index_tile_addresses (snd acc) t x y)"] by simp
  qed
qed

lemma build_rows_succeeds:
  "(\<exists>r. build_rows cfg ys acc = Inr r) \<longleftrightarrow>
   (\<forall>y \<in> set ys. \<forall>x \<in> set (py_range 0 (meta_maze_width cfg)).
      \<exists>t. make_tile cfg (y * meta_maze_width cfg + x) = Inr t)"
proof (induction ys arbitrary: acc)
  case Nil
  then show ?case by simp
next
  case (Cons y ys)
  show ?case
  proof (cases "build_row cfg y (py_range 0 (meta_maze_width cfg)) ([], snd acc)")
    case (Inl e)
    then have "\<not> (\<exists>r. build_row cfg y (py_range 0 (meta_maze_width cfg)) ([], snd acc) = Inr r)"
      by simp
    then have "\<not> (\<forall>x \<in> set (py_range 0 (meta_maze_width cfg)).
        \<exists>t. make_tile cfg (y * meta_maze_width cfg + x) = Inr t)"
      unfolding build_row_succeeds .
    with Inl show ?thesis by simp
  next
    case (Inr r)
    then have "\<exists>r. build_row cfg y (py_range 0 (meta_maze_width cfg)) ([], snd acc) = Inr r"
      by simp
    then have "\<forall>x \<in> set (py_range 0 (meta_maze_width cfg)).
        \<exists>t. make_tile cfg (y * meta_maze_width cfg + x) = Inr t"
      unfolding build_row_succeeds .
    with Inr show ?thesis
      using Cons.IH [of "(fst acc @ [fst r], snd r)"] by simp
  qed
qed

lemma maze_init_succeeds:
  "(\<exists>mz. maze_init cfg = Inr mz) \<longleftrightarrow>
   (\<forall>y \<in> set (py_range 0 (meta_maze_height cfg)). \<forall>x \<in> set (py_range 0 (meta_maze_width cfg)).
      \<exists>t. make_tile cfg (y * meta_maze_width cfg + x) = Inr t)"
  unfolding build_rows_succeeds [of cfg _ "([], Map.empty)", symmetric]
  by (auto simp: maze_init_def bnd_Inr_iff)

lemma maze_init_succeeds_iff:
  assumes "0 < meta_maze_width cfg" "0 < meta_maze_height cfg"
  shows "(\<exists>mz. maze_init cfg = Inr mz) \<longleftrightarrow>
         layers_hold cfg (meta_maze_width cfg * meta_maze_height cfg)"
proof -
  define w h where "w = meta_maze_width cfg" and "h = meta_maze_height cfg"
  have pos: "0 < w" "0 < h" using assms by (simp_all add: w_def h_def)
  have cells: "(\<exists>mz. maze_init cfg = Inr mz) \<longleftrightarrow>
      (\<forall>y. 0 \<le> y \<and> y < h \<longrightarrow> (\<forall>x. 0 \<le> x \<and> x < w \<longrightarrow> layers_hold cfg (y * w + x + 1)))"
  proof -
    have "\<And>x y. 0 \<le> y \<Longrightarrow> 0 \<le> x \<Longrightarrow>
      (\<exists>t. make_tile cfg (y * w + x) = Inr t) \<longleftrightarrow> layers_hold cfg (y * w + x + 1)"
      using pos by (intro make_tile_succeeds) simp
    then show ?thesis
      unfolding maze_init_succeeds py_range_def w_def [symmetric] h_def [symmetric]
      by auto
  qed
  have mono: "\<And>m n. layers_hold cfg n \<Longrightarrow> m \<le> n \<Longrightarrow> layers_hold cfg m"
    by (auto simp: layers_hold_def)
  show ?thesis
    unfolding cells w_def [symmetric] h_def [symmetric]
  proof
    assume "\<forall>y. 0 \<le> y \<and> y < h \<longrightarrow> (\<forall>x. 0 \<le> x \<and> x < w \<longrightarrow> layers_hold cfg (y * w + x + 1))"
    from this [rule_format, of "h - 1" "w - 1"]
    have "layers_hold cfg ((h - 1) * w + (w - 1) + 1)"
      using pos by simp
    then show "layers_hold cfg (w * h)"
      by (simp add: algebra_simps)
  next
    assume all: "layers_hold cfg (w * h)"
    show "\<forall>y. 0 \<le> y \<and> y < h \<longrightarrow> (\<forall>x. 0 \<le> x \<and> x < w \<longrightarrow> layers_hold cfg (y * w + x + 1))"
    proof (intro allI impI)
      fix y x assume y: "0 \<le> y \<and> y < h" and x: "0 \<le> x \<and> x < w"
      have "y * w \<le> (h - 1) * w"
        using y pos by (intro mult_right_mono) auto
      then have "y * w + x + 1 \<le> w * h"
        using x by (simp add: algebra_simps)
      with all show "layers_hold cfg (y * w + x + 1)" by (rule mono)
    qed
  qed
qed

lemma alley_init: "maze_init alley = Inr alley_maze"
  by (simp add: alley_def town_def alley_maze_def maze_init_def py_range_def make_tile_def
      py_index_def py_pos_def index_tile_addresses_def index_add_def tiles_for_address_def
      dict_get_def obj_path_def lawn_tile_def upto.simps)

text \<open>
  Claim C8, as amended. With a positive width and height, the constructor raises
  (IndexError, which names no layer) when one of the five layers has fewer than
  \<open>width * height\<close> cells, and returns a maze when every layer has at least that many:
  cells beyond \<open>width * height\<close> are never read. With a width or height that is not
  positive no cell is read and the constructor returns.
\<close>

theorem maze_init_layer_sizes:
  "(0 < meta_maze_width cfg \<and> 0 < meta_maze_height cfg \<and>
      \<not> layers_hold cfg (meta_maze_width cfg * meta_maze_height cfg)
      \<longrightarrow> maze_init cfg = Inl IndexError) \<and>
   (meta_maze_width cfg \<le> 0 \<or> meta_maze_height cfg \<le> 0 \<or>
      layers_hold cfg (meta_maze_width cfg * meta_maze_height cfg)
      \<longrightarrow> (\<exists>mz. maze_init cfg = Inr mz))"
proof (intro conjI impI)
  assume short: "0 < meta_maze_width cfg \<and> 0 < meta_maze_height cfg \<and>
      \<not> layers_hold cfg (meta_maze_width cfg * meta_maze_height cfg)"
  then have "\<not> (\<exists>mz. maze_init cfg = Inr mz)"
    using maze_init_succeeds_iff [of cfg] by simp
  then obtain e where "maze_init cfg = Inl e"
    by (cases "maze_init cfg") auto
  then show "maze_init cfg = Inl IndexError"
    using maze_init_error by blast
next
  assume "meta_maze_width cfg \<le> 0 \<or> meta_maze_height cfg \<le> 0 \<or>
      layers_hold cfg (meta_maze_width cfg * meta_maze_height cfg)"
  then consider "meta_maze_width cfg \<le> 0 \<or> meta_maze_height cfg \<le> 0"
    | "0 < meta_maze_width cfg" "0 < meta_maze_height cfg"
      "layers_hold cfg (meta_maze_width cfg * meta_maze_height cfg)"
    by linarith
  then show "\<exists>mz. maze_init cfg = Inr mz"
  proof cases
    case 1
    then show ?thesis
      unfolding maze_init_succeeds by (auto simp: py_range_def)
  next
    case 2
    then show ?thesis by (simp add: maze_init_succeeds_iff)
  qed
qed

theorem maze_init_layer_sizes_witness:
  "0 < meta_maze_width wide_town \<and> 0 < meta_maze_height wide_town \<and>
   \<not> layers_hold wide_town (meta_maze_width wide_town * meta_maze_height wide_town) \<and>
   maze_init wide_town = Inl IndexError \<and>
   layers_hold alley (meta_maze_width alley * meta_maze_height alley) \<and>
   (\<exists>mz. maze_init alley = Inr mz)"
  using maze_init_layer_sizes [of wide_town] maze_init_layer_sizes [of alley]
  by (simp add: wide_town_def alley_def town_def layers_hold_def)

text \<open>
  The claim C8 as written fails: every layer of \<open>alley\<close> has nine cells, its grid has four,
  and the constructor returns a maze.
\<close>

theorem maze_init_oversized_counterexample:
  "meta_maze_width alley * meta_maze_height alley = 4 \<and>
   length (collision_raw alley) = 9 \<and> length (sector_raw alley) = 9 \<and>
   length (arena_raw alley) = 9 \<and> length (object_raw alley) = 9 \<and>
   length (spawn_raw alley) = 9 \<and>
   maze_init alley = Inr alley_maze"
  by (simp add: alley_init) (simp add: alley_def town_def)

subsection \<open>The reverse index\<close>

lemma tiles_for_address_index_add:
  "tiles_for_address (index_add idx k c) k' =
     (if k' = k then insert c (tiles_for_address idx k) else tiles_for_address idx k')"
  by (simp add: index_add_def tiles_for_address_def)

lemma index_add_mono:
  "tiles_for_address idx k \<subseteq> tiles_for_address (if b then index_add idx k' c else idx) k"
  by (cases "k = k'") (auto simp: tiles_for_address_index_add)

lemma index_tile_addresses_steps:
  "index_tile_addresses idx t x y =
     (let i1 = (if sector t \<noteq> [] then index_add idx (world t @ '':'' @ sector t) (x, y) else idx);
          i2 = (if arena t \<noteq> [] then index_add i1 (arena_key t) (x, y) else i1);
          i3 = (if game_object t \<noteq> [] then index_add i2 (obj_path t) (x, y) else i2)
      in if spawning_location t \<noteq> []
         then index_add i3 (''<spawn_loc>'' @ spawning_location t) (x, y) else i3)"
  unfolding index_tile_addresses_def arena_key_def obj_path_def ..

lemma index_tile_addresses_mono:
  "tiles_for_address idx k \<subseteq> tiles_for_address (index_tile_addresses idx t x y) k"
proof -
  define i1 where "i1 = (if sector t \<noteq> [] then index_add idx (world t @ '':'' @ sector t) (x, y) else idx)"
  define i2 where "i2 = (if arena t \<noteq> [] then index_add i1 (arena_key t) (x, y) else i1)"
  define i3 where "i3 = (if game_object t \<noteq> [] then index_add i2 (obj_path t) (x, y) else i2)"
  have res: "index_tile_addresses idx t x y =
      (if spawning_location t \<noteq> []
       then index_add i3 (''<spawn_loc>'' @ spawning_location t) (x, y) else i3)"
    unfolding index_tile_addresses_steps i1_def i2_def i3_def Let_def ..
  have "tiles_for_address idx k \<subseteq> tiles_for_address i1 k"
    unfolding i1_def by (rule index_add_mono)
  also have "\<dots> \<subseteq> tiles_for_address i2 k"
    unfolding i2_def by (rule index_add_mono)
  also have "\<dots> \<subseteq> tiles_for_address i3 k"
    unfolding i3_def by (rule index_add_mono)
  also have "\<dots> \<subseteq> tiles_for_address (index_tile_addresses idx t x y) k"
    unfolding res by (rule index_add_mono)
  finally show ?thesis .
qed

lemma index_tile_addresses_arena:
  assumes "arena t \<noteq> []"
  shows "(x, y) \<in> tiles_for_address (index_tile_addresses idx t x y) (arena_key t)"
proof -
  define i1 where "i1 = (if sector t \<noteq> [] then index_add idx (world t @ '':'' @ sector t) (x, y) else idx)"
  define i2 where "i2 = (if arena t \<noteq> [] then index_add i1 (arena_key t) (x, y) else i1)"
  define i3 where "i3 = (if game_object t \<noteq> [] then index_add i2 (obj_path t) (x, y) else i2)"
  have res: "index_tile_addresses idx t x y =
      (if spawning_location t \<noteq> []
       then index_add i3 (''<spawn_loc>'' @ spawning_location t) (x, y) else i3)"
    unfolding index_tile_addresses_steps i1_def i2_def i3_def Let_def ..
  have "(x, y) \<in> tiles_for_address i2 (arena_key t)"
    unfolding i2_def using assms by (simp add: tiles_for_address_index_add)
  also have "tiles_for_address i2 (arena_key t) \<subseteq> tiles_for_address i3 (arena_key t)"
    unfolding i3_def by (rule index_add_mono)
  also have "\<dots> \<subseteq> tiles_for_address (index_tile_addresses idx t x y) (arena_key t)"
    unfolding res by (rule index_add_mono)
  finally show ?thesis .
qed

lemma build_row_indexed:
  assumes "build_row cfg y xs acc = Inr r"
  shows "(\<forall>k. tiles_for_address (snd acc) k \<subseteq> tiles_for_address (snd r) k) \<and>
         (\<exists>new. fst r = fst acc @ new \<and> length new = length xs \<and>
            (\<forall>i < length xs. arena (new ! i) \<noteq> [] \<longrightarrow>
               (xs ! i, y) \<in> tiles_for_address (snd r) (arena_key (new ! i))))"
  using assms
proof (induction xs arbitrary: acc)
  case Nil
  then show ?case by simp
next
  case (Cons x xs)
  from Cons.prems obtain t where
    rest: "build_row cfg y xs (fst acc @ [t], index_tile_addresses (snd acc) t x y) = Inr r"
    by (auto simp: bnd_Inr_iff)
  from Cons.IH [OF rest] obtain new where
    mono: "\<And>k. tiles_for_address (index_tile_addresses (snd acc) t x y) k
             \<subseteq> tiles_for_address (snd r) k"
    and new: "fst r = (fst acc @ [t]) @ new" "length new = length xs"
    and ind: "\<And>i. i < length xs \<Longrightarrow> arena (new ! i) \<noteq> [] \<Longrightarrow>
             (xs ! i, y) \<in> tiles_for_address (snd r) (arena_key (new ! i))"
    by auto
  have grow: "tiles_for_address (snd acc) k \<subseteq> tiles_for_address (snd r) k" for k
    using index_tile_addresses_mono [of "snd acc" k t x y] mono [of k] by blast
  have cells: "arena ((t # new) ! i) \<noteq> [] \<longrightarrow>
      ((x # xs) ! i, y) \<in> tiles_for_address (snd r) (arena_key ((t # new) ! i))"
    if "i < length (x # xs)" for i
  proof (cases i)
    case 0
    then show ?thesis
      using index_tile_addresses_arena [of t x y "snd acc"] mono [of "arena_key t"] by auto
  next
    case (Suc n)
    with that ind [of n] show ?thesis by simp
  qed
  have "fst r = fst acc @ (t # new) \<and> length (t # new) = length (x # xs)"
    using new by simp
  with grow cells show ?case by blast
qed

lemma build_rows_indexed:
  assumes "build_rows cfg ys acc = Inr r"
  shows "(\<forall>k. tiles_for_address (snd acc) k \<subseteq> tiles_for_address (snd r) k) \<and>
         (\<exists>new. fst r = fst acc @ new \<and> length new = length ys \<and>
            (\<forall>j < length ys. \<forall>i < length (new ! j). arena (new ! j ! i) \<noteq> [] \<longrightarrow>
               (int i, ys ! j) \<in> tiles_for_address (snd r) (arena_key (new ! j ! i))))"
  using assms
proof (induction ys arbitrary: acc)
  case Nil
  then show ?case by simp
next
  case (Cons y ys)
  define w where "w = meta_maze_width cfg"
  from Cons.prems obtain row where
    row: "build_row cfg y (py_range 0 w) ([], snd acc) = Inr row"
    and rest: "build_rows cfg ys (fst acc @ [fst row], snd row) = Inr r"
    by (auto simp: bnd_Inr_iff w_def)
  from build_row_indexed [OF row] have
    mono1: "\<And>k. tiles_for_address (snd acc) k \<subseteq> tiles_for_address (snd row) k"
    and len1: "length (fst row) = length (py_range 0 w)"
    and ind1: "\<And>i. i < length (py_range 0 w) \<Longrightarrow> arena (fst row ! i) \<noteq> [] \<Longrightarrow>
             (py_range 0 w ! i, y) \<in> tiles_for_address (snd row) (arena_key (fst row ! i))"
    by auto
  from Cons.IH [OF rest] obtain new where
    mono2: "\<And>k. tiles_for_address (snd row) k \<subseteq> tiles_for_address (snd r) k"
    and new: "fst r = (fst acc @ [fst row]) @ new" "length new = length ys"
    and ind2: "\<And>j i. j < length ys \<Longrightarrow> i < length (new ! j) \<Longrightarrow> arena (new ! j ! i) \<noteq> [] \<Longrightarrow>
             (int i, ys ! j) \<in> tiles_for_address (snd r) (arena_key (new ! j ! i))"
    by auto
  have grow: "tiles_for_address (snd acc) k \<subseteq> tiles_for_address (snd r) k" for k
    using mono1 [of k] mono2 [of k] by blast
  have nth_range: "py_range 0 w ! i = int i" if "i < length (py_range 0 w)" for i
    using that by (simp add: py_range_def)
  have cells: "arena ((fst row # new) ! j ! i) \<noteq> [] \<longrightarrow>
      (int i, (y # ys) ! j) \<in> tiles_for_address (snd r) (arena_key ((fst row # new) ! j ! i))"
    if "j < length (y # ys)" "i < length ((fst row # new) ! j)" for j i
  proof (cases j)
    case 0
    with that(2) have i: "i < length (py_range 0 w)" by (simp add: len1)
    show ?thesis
      using ind1 [OF i] mono2 [of "arena_key (fst row ! i)"] nth_range [OF i] 0 by auto
  next
    case (Suc n)
    with that ind2 [of n i] show ?thesis by simp
  qed
  have "fst r = fst acc @ (fst row # new) \<and> length (fst row # new) = length (y # ys)"
    using new by simp
  with grow cells show ?case by blast
qed

lemma maze_init_arena_indexed:
  assumes "maze_init cfg = Inr mz"
  shows "arena_indexed mz"
proof -
  define h where "h = meta_maze_height cfg"
  from assms obtain r where
    r: "build_rows cfg (py_range 0 h) ([], Map.empty) = Inr r"
    and mz: "tiles mz = fst r" "address_tiles mz = snd r"
    by (auto simp: maze_init_def bnd_Inr_iff h_def)
  from build_rows_indexed [OF r] have
    len: "length (fst r) = length (py_range 0 h)"
    and ind: "\<And>j i. j < length (py_range 0 h) \<Longrightarrow> i < length (fst r ! j) \<Longrightarrow>
        arena (fst r ! j ! i) \<noteq> [] \<Longrightarrow>
        (int i, py_range 0 h ! j) \<in> tiles_for_address (snd r) (arena_key (fst r ! j ! i))"
    by auto
  have "py_range 0 h ! j = int j" if "j < length (py_range 0 h)" for j
    using that by (simp add: py_range_def)
  with ind len show ?thesis
    by (auto simp: arena_indexed_def mz)
qed

lemma update_events_arena_indexed:
  assumes "update_events mz c f = Inr mz'" and "arena_indexed mz"
  shows "arena_indexed mz'"
proof -
  from assms(1) obtain r k where
    mz': "mz' = mz\<lparr>tiles := (tiles mz)[r := (tiles mz ! r)[k :=
        (tiles mz ! r ! k)\<lparr>events := f (events (tiles mz ! r ! k))\<rparr>]]\<rparr>"
    by (auto simp: update_events_def bnd_Inr_iff Let_def)
  have len: "length (tiles mz') = length (tiles mz)"
    and idx: "address_tiles mz' = address_tiles mz"
    by (simp_all add: mz')
  have row: "length (tiles mz' ! j) = length (tiles mz ! j)" if "j < length (tiles mz)" for j
    using that by (cases "j = r") (simp_all add: mz')
  have cell: "arena (tiles mz' ! j ! i) = arena (tiles mz ! j ! i) \<and>
      arena_key (tiles mz' ! j ! i) = arena_key (tiles mz ! j ! i)"
    if "j < length (tiles mz)" "i < length (tiles mz ! j)" for j i
    using that by (cases "j = r"; cases "i = k") (simp_all add: mz' arena_key_def)
  show ?thesis
    unfolding arena_indexed_def
  proof (intro allI impI)
    fix j i
    assume j: "j < length (tiles mz')" and i: "i < length (tiles mz' ! j)"
      and a: "arena (tiles mz' ! j ! i) \<noteq> []"
    from j have j': "j < length (tiles mz)" by (simp add: len)
    with i have i': "i < length (tiles mz ! j)" by (simp add: row)
    from a cell [OF j' i'] have "arena (tiles mz ! j ! i) \<noteq> []" by simp
    with assms(2) j' i' have
      "(int i, int j) \<in> tiles_for_address (address_tiles mz) (arena_key (tiles mz ! j ! i))"
      unfolding arena_indexed_def by blast
    then show "(int i, int j) \<in>
        tiles_for_address (address_tiles mz') (arena_key (tiles mz' ! j ! i))"
      using cell [OF j' i'] by (simp add: idx)
  qed
qed

lemma reachable_arena_indexed: "reachable cfg mz \<Longrightarrow> arena_indexed mz"
  by (induction rule: reachable.induct)
    (auto simp: maze_init_arena_indexed add_event_from_tile_def remove_event_from_tile_def
      turn_event_from_tile_idle_def remove_subject_events_from_tile_def
      intro: update_events_arena_indexed)

lemma reachable_index_fixed:
  "reachable cfg mz \<Longrightarrow> \<exists>mz0. maze_init cfg = Inr mz0 \<and> address_tiles mz = address_tiles mz0"
  by (induction rule: reachable.induct)
    (auto simp: add_event_from_tile_def remove_event_from_tile_def
      turn_event_from_tile_idle_def remove_subject_events_from_tile_def
      dest: update_events_frame)

lemma town_cleared: "remove_event_from_tile town_maze board_idle (1, 1) = Inr town_maze_cleared"
  by (simp add: py_pos_def town_maze_def town_maze_cleared_def remove_event_from_tile_def
      update_events_def board_tile_def)

lemma town_cleared_reachable: "reachable town town_maze_cleared"
  using town_reachable town_cleared by (rule r_remove)

text \<open>
  Claim C7. On a maze built by the constructor and changed by any number of event
  mutations, a tile inside the grid whose arena is not empty has its coordinate in the set
  indexed under its arena address; and the index is still the one the constructor built.
\<close>

theorem arena_address_indexed:
  assumes "reachable cfg mz"
    and "0 \<le> x" "x < maze_width mz" "0 \<le> y" "y < maze_height mz"
  shows "\<exists>t p mz0. access_tile mz (x, y) = Inr t \<and>
           get_tile_path mz (x, y) ''arena'' = Inr p \<and>
           (arena t \<noteq> [] \<longrightarrow> (x, y) \<in> tiles_for_address (address_tiles mz) p) \<and>
           maze_init cfg = Inr mz0 \<and> address_tiles mz = address_tiles mz0"
proof -
  define t where "t = tiles mz ! nat y ! nat x"
  have shape: "grid_shape mz" using assms(1) by (rule reachable_shape)
  then have ylen: "nat y < length (tiles mz)" and xlen: "nat x < length (tiles mz ! nat y)"
    using assms(2-5) by (auto simp: grid_shape_def list_all_length)
  have acc: "access_tile mz (x, y) = Inr t"
    unfolding t_def using shape assms(2-5) by (rule access_tile_inside)
  then have path: "get_tile_path mz (x, y) ''arena'' = Inr (arena_key t)"
    by (simp add: get_tile_path_def arena_key_def)
  have "arena_indexed mz" using assms(1) by (rule reachable_arena_indexed)
  with ylen xlen have "arena t \<noteq> [] \<longrightarrow>
      (int (nat x), int (nat y)) \<in> tiles_for_address (address_tiles mz) (arena_key t)"
    unfolding arena_indexed_def t_def by blast
  then have mem: "arena t \<noteq> [] \<longrightarrow> (x, y) \<in> tiles_for_address (address_tiles mz) (arena_key t)"
    using assms(2,4) by simp
  from reachable_index_fixed [OF assms(1)] acc path mem show ?thesis by blast
qed

theorem arena_address_indexed_witness:
  "reachable town town_maze_cleared \<and> (0::int) \<le> 1 \<and> 1 < maze_width town_maze_cleared \<and>
   1 < maze_height town_maze_cleared \<and>
   access_tile town_maze_cleared (1, 1) = Inr (board_tile\<lparr>events := {}\<rparr>) \<and>
   arena (board_tile\<lparr>events := {}\<rparr>) \<noteq> [] \<and>
   get_tile_path town_maze_cleared (1, 1) ''arena'' = Inr ''Town:park:bench'' \<and>
   (1, 1) \<in> tiles_for_address (address_tiles town_maze_cleared) ''Town:park:bench'' \<and>
   address_tiles town_maze_cleared = address_tiles town_maze"
proof -
  have w: "(1::int) < maze_width town_maze_cleared"
    and h: "(1::int) < maze_height town_maze_cleared"
    by (simp_all add: town_maze_cleared_def town_dims)
  have acc: "access_tile town_maze_cleared (1, 1) = Inr (board_tile\<lparr>events := {}\<rparr>)"
    by (simp add: access_tile_def py_index_def py_pos_def town_maze_cleared_def)
  have path: "get_tile_path town_maze_cleared (1, 1) ''arena'' = Inr ''Town:park:bench''"
    by (simp add: get_tile_path_def acc board_tile_def)
  have a: "arena (board_tile\<lparr>events := {}\<rparr>) \<noteq> []"
    by (simp add: board_tile_def)
  have "address_tiles town_maze_cleared = address_tiles town_maze"
    by (simp add: town_maze_cleared_def)
  with arena_address_indexed [OF town_cleared_reachable _ w _ h] acc path a
  show ?thesis using town_cleared_reachable w h by auto
qed

section \<open>Properties of the persona\<close>

subsection \<open>The order of the cognitive steps\<close>

text \<open>
  Claim C1. In every call of \<open>move\<close> the modules are called in the order perceive,
  retrieve, plan, reflect, execute. A module that raises ends the call: the modules after
  it are not called and its exception is what \<open>move\<close> raises; so when planning raises,
  the calls made are perceive, retrieve and plan only. Whatever plan returns, reflect is
  called next, and execute after reflect returned; the result of execute is the result
  of \<open>move\<close>.
\<close>

theorem move_sequence:
  assumes "update_scratch tile time p = (new_day, p0)"
  shows "(\<forall>p1 e. perceive C maze p0 = (p1, Inl e) \<longrightarrow>
            move C maze personas tile time p = ((p1, [Perceive]), Inl e)) \<and>
         (\<forall>p1 perceived p2 e. perceive C maze p0 = (p1, Inr perceived) \<and>
            retrieve C perceived p1 = (p2, Inl e) \<longrightarrow>
            move C maze personas tile time p = ((p2, [Perceive, Retrieve]), Inl e)) \<and>
         (\<forall>p1 perceived p2 retrieved p3 e. perceive C maze p0 = (p1, Inr perceived) \<and>
            retrieve C perceived p1 = (p2, Inr retrieved) \<and>
            plan C maze personas new_day retrieved p2 = (p3, Inl e) \<longrightarrow>
            move C maze personas tile time p = ((p3, [Perceive, Retrieve, Plan]), Inl e)) \<and>
         (\<forall>p1 perceived p2 retrieved p3 plan_result p4 e.
            perceive C maze p0 = (p1, Inr perceived) \<and>
            retrieve C perceived p1 = (p2, Inr retrieved) \<and>
            plan C maze personas new_day retrieved p2 = (p3, Inr plan_result) \<and>
            reflect C p3 = (p4, Inl e) \<longrightarrow>
            move C maze personas tile time p =
              ((p4, [Perceive, Retrieve, Plan, Reflect]), Inl e)) \<and>
         (\<forall>p1 perceived p2 retrieved p3 plan_result p4 p5 r.
            perceive C maze p0 = (p1, Inr perceived) \<and>
            retrieve C perceived p1 = (p2, Inr retrieved) \<and>
            plan C maze personas new_day retrieved p2 = (p3, Inr plan_result) \<and>
            reflect C p3 = (p4, Inr ()) \<and>
            execute C maze personas plan_result p4 = (p5, r) \<longrightarrow>
            move C maze personas tile time p =
              ((p5, [Perceive, Retrieve, Plan, Reflect, Execute]), r))"
  using assms by (simp add: move_def seq_def call_def)

theorem move_sequence_witness:
  "update_scratch (1, 1) feb_14 sleeper =
     (NewDay, \<lparr> curr_tile = Some (1, 1), curr_time = Some feb_14, memory = 0 \<rparr>) \<and>
   plan faulty_plan town_maze () NewDay ''seen''
       \<lparr> curr_tile = Some (1, 1), curr_time = Some feb_14, memory = 1 \<rparr> =
     (\<lparr> curr_tile = Some (1, 1), curr_time = Some feb_14, memory = 101 \<rparr>,
      Inl (CollaboratorFailure ''plan'')) \<and>
   move faulty_plan town_maze () (1, 1) feb_14 sleeper =
     ((\<lparr> curr_tile = Some (1, 1), curr_time = Some feb_14, memory = 101 \<rparr>,
       [Perceive, Retrieve, Plan]), Inl (CollaboratorFailure ''plan'')) \<and>
   move steady town_maze () (1, 1) feb_14 sleeper =
     ((\<lparr> curr_tile = Some (1, 1), curr_time = Some feb_14, memory = 11 \<rparr>,
       [Perceive, Retrieve, Plan, Reflect, Execute]), Inr ''wake up'')"
proof -
  have flag: "strftime_A_B_d feb_13 \<noteq> strftime_A_B_d feb_14"
    by (simp add: strftime_A_B_d_def feb_13_def feb_14_def two_digits_def)
  have upd: "update_scratch (1, 1) feb_14 sleeper =
     (NewDay, \<lparr> curr_tile = Some (1, 1), curr_time = Some feb_14, memory = 0 \<rparr>)"
    using flag by (simp add: update_scratch_def sleeper_def)
  show ?thesis
    using move_sequence [OF upd, of faulty_plan town_maze "()"]
      move_sequence [OF upd, of steady town_maze "()"] upd
    by (simp add: faulty_plan_def steady_def)
qed

subsection \<open>The day flag\<close>

lemma split_at_space:
  assumes "a @ CHR '' '' # b = c @ CHR '' '' # d"
    and "CHR '' '' \<notin> set a" "CHR '' '' \<notin> set c"
  shows "a = c \<and> b = d"
  using assms
proof (induction a arbitrary: c)
  case Nil
  then show ?case by (cases c) auto
next
  case (Cons x a)
  then show ?case by (cases c) auto
qed

lemma day_names_no_space: "k < 7 \<Longrightarrow> CHR '' '' \<notin> set (day_names ! k)"
proof -
  have "\<forall>s \<in> set day_names. CHR '' '' \<notin> set s" by (simp add: day_names_def)
  moreover assume "k < 7"
  then have "day_names ! k \<in> set day_names"
    using nth_mem [of k day_names] by (simp add: day_names_def del: nth_mem)
  ultimately show ?thesis by blast
qed

lemma month_names_no_space: "k < 12 \<Longrightarrow> CHR '' '' \<notin> set (month_names ! k)"
proof -
  have "\<forall>s \<in> set month_names. CHR '' '' \<notin> set s" by (simp add: month_names_def)
  moreover assume "k < 12"
  then have "month_names ! k \<in> set month_names"
    using nth_mem [of k month_names] by (simp add: month_names_def del: nth_mem)
  ultimately show ?thesis by blast
qed

lemma day_names_inj: "i < 7 \<Longrightarrow> j < 7 \<Longrightarrow> day_names ! i = day_names ! j \<longleftrightarrow> i = j"
proof -
  have "distinct day_names" "length day_names = 7" by (simp_all add: day_names_def)
  then show "i < 7 \<Longrightarrow> j < 7 \<Longrightarrow> day_names ! i = day_names ! j \<longleftrightarrow> i = j"
    by (simp add: nth_eq_iff_index_eq)
qed

lemma month_names_inj: "i < 12 \<Longrightarrow> j < 12 \<Longrightarrow> month_names ! i = month_names ! j \<longleftrightarrow> i = j"
proof -
  have "distinct month_names" "length month_names = 12" by (simp_all add: month_names_def)
  then show "i < 12 \<Longrightarrow> j < 12 \<Longrightarrow> month_names ! i = month_names ! j \<longleftrightarrow> i = j"
    by (simp add: nth_eq_iff_index_eq)
qed

lemma digits_inj: "i < 10 \<Longrightarrow> j < 10 \<Longrightarrow> ''0123456789'' ! i = ''0123456789'' ! j \<longleftrightarrow> i = j"
proof -
  have "distinct ''0123456789''" "length ''0123456789'' = 10" by simp_all
  then show "i < 10 \<Longrightarrow> j < 10 \<Longrightarrow> ''0123456789'' ! i = ''0123456789'' ! j \<longleftrightarrow> i = j"
    by (simp only: nth_eq_iff_index_eq)
qed

lemma two_digits_inj:
  assumes "0 \<le> m" "m < 100" "0 \<le> n" "n < 100"
  shows "two_digits m = two_digits n \<longleftrightarrow> m = n"
proof
  assume eq: "two_digits m = two_digits n"
  have hi: "0 \<le> m div 10" "0 \<le> n div 10" "m div 10 < 10" "n div 10 < 10"
    using assms by simp_all
  have lo: "0 \<le> m mod 10" "0 \<le> n mod 10" "m mod 10 < 10" "n mod 10 < 10"
    by simp_all
  have "nat (m div 10) < 10" "nat (n div 10) < 10" "nat (m mod 10) < 10" "nat (n mod 10) < 10"
    using hi lo by simp_all
  with eq have "nat (m div 10) = nat (n div 10)" "nat (m mod 10) = nat (n mod 10)"
    unfolding two_digits_def by (simp_all only: list.inject digits_inj)
  then have d: "m div 10 = n div 10" and r: "m mod 10 = n mod 10"
    using hi(1,2) lo(1,2) by (simp_all only: eq_nat_nat_iff)
  have "m = 10 * (m div 10) + m mod 10" by simp
  also have "\<dots> = 10 * (n div 10) + n mod 10" by (simp only: d r)
  also have "\<dots> = n" by simp
  finally show "m = n" .
next
  assume "m = n"
  then show "two_digits m = two_digits n" by simp
qed

lemma weekday_range: "0 \<le> weekday d \<and> weekday d < 7"
  by (simp add: weekday_def)

lemma days_in_month_le: "1 \<le> m \<Longrightarrow> m \<le> 12 \<Longrightarrow> days_in_month y m \<le> 31"
proof -
  assume "1 \<le> m" "m \<le> 12"
  then have "m = 1 \<or> m = 2 \<or> m = 3 \<or> m = 4 \<or> m = 5 \<or> m = 6 \<or> m = 7 \<or> m = 8 \<or>
      m = 9 \<or> m = 10 \<or> m = 11 \<or> m = 12"
    by arith
  then show ?thesis
    by (elim disjE) (simp_all add: days_in_month_def DAYS_IN_MONTH_def)
qed

lemma strftime_eq_iff:
  assumes "valid_datetime a" "valid_datetime b"
  shows "strftime_A_B_d a = strftime_A_B_d b \<longleftrightarrow>
         weekday a = weekday b \<and> month a = month b \<and> day a = day b"
proof
  assume eq: "strftime_A_B_d a = strftime_A_B_d b"
  have wa: "nat (weekday a) < 7" and wb: "nat (weekday b) < 7"
    using weekday_range [of a] weekday_range [of b] by auto
  have ma: "nat (month a - 1) < 12" and mb: "nat (month b - 1) < 12"
    using assms by (auto simp: valid_datetime_def)
  have da: "0 \<le> day a \<and> day a < 100" and db: "0 \<le> day b \<and> day b < 100"
    using assms days_in_month_le [of "month a" "year a"] days_in_month_le [of "month b" "year b"]
    by (auto simp: valid_datetime_def)
  from eq have "day_names ! nat (weekday a) @ CHR '' '' # (month_names ! nat (month a - 1) @ '' '' @ two_digits (day a))
      = day_names ! nat (weekday b) @ CHR '' '' # (month_names ! nat (month b - 1) @ '' '' @ two_digits (day b))"
    by (simp add: strftime_A_B_d_def)
  from split_at_space [OF this day_names_no_space [OF wa] day_names_no_space [OF wb]]
  have w: "day_names ! nat (weekday a) = day_names ! nat (weekday b)"
    and rest: "month_names ! nat (month a - 1) @ CHR '' '' # two_digits (day a)
      = month_names ! nat (month b - 1) @ CHR '' '' # two_digits (day b)"
    by simp_all
  from split_at_space [OF rest month_names_no_space [OF ma] month_names_no_space [OF mb]]
  have m: "month_names ! nat (month a - 1) = month_names ! nat (month b - 1)"
    and d: "two_digits (day a) = two_digits (day b)"
    by simp_all
  from w have "nat (weekday a) = nat (weekday b)"
    using day_names_inj [OF wa wb] by simp
  then have "weekday a = weekday b"
    using weekday_range [of a] weekday_range [of b] by auto
  moreover from m have "nat (month a - 1) = nat (month b - 1)"
    using month_names_inj [OF ma mb] by simp
  then have "month a = month b"
    using assms by (auto simp: valid_datetime_def)
  moreover from d have "day a = day b"
    using two_digits_inj da db by blast
  ultimately show "weekday a = weekday b \<and> month a = month b \<and> day a = day b" by simp
next
  assume "weekday a = weekday b \<and> month a = month b \<and> day a = day b"
  then show "strftime_A_B_d a = strftime_A_B_d b"
    by (simp add: strftime_A_B_d_def)
qed

lemma same_year_weekday:
  "year a = year b \<Longrightarrow> month a = month b \<Longrightarrow> day a = day b \<Longrightarrow> weekday a = weekday b"
  by (simp add: weekday_def toordinal_def)

lemma update_scratch_flag:
  "fst (update_scratch tile time p) =
     (case curr_time p of None \<Rightarrow> FirstDay
      | Some prev \<Rightarrow> if strftime_A_B_d prev = strftime_A_B_d time then NoSignal else NewDay)"
  by (simp add: update_scratch_def split: option.splits)

lemma update_scratch_state:
  "snd (update_scratch tile time p) = p\<lparr>curr_tile := Some tile, curr_time := Some time\<rparr>"
  by (simp add: update_scratch_def)

text \<open>
  Claim C4, as amended. With no time stored the flag is \<open>"First day"\<close>. With a time stored,
  the flag is \<open>"New day"\<close> when the weekday, the month or the day of the month of the
  stored time differs from that of the new time, and \<open>False\<close> otherwise; for two times of
  the same year that is: when their calendar days differ. The new time is stored in every
  case.
\<close>

theorem update_scratch_day_flag:
  "(curr_time p = None \<longrightarrow> fst (update_scratch tile time p) = FirstDay) \<and>
   (\<forall>prev. curr_time p = Some prev \<and> valid_datetime prev \<and> valid_datetime time \<longrightarrow>
      fst (update_scratch tile time p) =
        (if weekday prev = weekday time \<and> month prev = month time \<and> day prev = day time
         then NoSignal else NewDay) \<and>
      (year prev = year time \<longrightarrow>
         fst (update_scratch tile time p) =
           (if month prev = month time \<and> day prev = day time then NoSignal else NewDay))) \<and>
   curr_time (snd (update_scratch tile time p)) = Some time"
proof (intro conjI allI impI)
  assume "curr_time p = None"
  then show "fst (update_scratch tile time p) = FirstDay"
    by (simp add: update_scratch_flag)
next
  fix prev
  assume a: "curr_time p = Some prev \<and> valid_datetime prev \<and> valid_datetime time"
  then have key: "strftime_A_B_d prev = strftime_A_B_d time \<longleftrightarrow>
      weekday prev = weekday time \<and> month prev = month time \<and> day prev = day time"
    by (simp add: strftime_eq_iff)
  from a show general: "fst (update_scratch tile time p) =
      (if weekday prev = weekday time \<and> month prev = month time \<and> day prev = day time
       then NoSignal else NewDay)"
    by (simp add: update_scratch_flag key)
  assume "year prev = year time"
  then have "month prev = month time \<and> day prev = day time \<longrightarrow> weekday prev = weekday time"
    using same_year_weekday [of prev time] by blast
  then show "fst (update_scratch tile time p) =
      (if month prev = month time \<and> day prev = day time then NoSignal else NewDay)"
    unfolding general by auto
next
  show "curr_time (snd (update_scratch tile time p)) = Some time"
    by (simp add: update_scratch_state)
qed

lemma feb_valid: "valid_datetime feb_13" "valid_datetime feb_14"
  by (simp_all add: valid_datetime_def feb_13_def feb_14_def days_in_month_def
      DAYS_IN_MONTH_def is_leap_def)

theorem update_scratch_day_flag_witness:
  "curr_time sleeper = Some feb_13 \<and> valid_datetime feb_13 \<and> valid_datetime feb_14 \<and>
   year feb_13 = year feb_14 \<and>
   fst (update_scratch (1, 1) feb_14 sleeper) = NewDay \<and>
   fst (update_scratch (1, 1) feb_13 sleeper) = NoSignal \<and>
   curr_time (sleeper\<lparr>curr_time := None\<rparr>) = None \<and>
   fst (update_scratch (1, 1) feb_13 (sleeper\<lparr>curr_time := None\<rparr>)) = FirstDay \<and>
   curr_time (snd (update_scratch (1, 1) feb_14 sleeper)) = Some feb_14"
  using update_scratch_day_flag [of sleeper "(1, 1)" feb_14]
    update_scratch_day_flag [of sleeper "(1, 1)" feb_13]
    update_scratch_day_flag [of "sleeper\<lparr>curr_time := None\<rparr>" "(1, 1)" feb_13] feb_valid
  by (simp add: sleeper_def) (simp add: feb_13_def feb_14_def)

text \<open>
  The claim C4 as written fails for calendar days that differ in the year only, when
  both fall on the same weekday: 1 January 2017 and 1 January 2023 are Sundays, and the
  flag is \<open>False\<close>.
\<close>

theorem day_flag_other_year_counterexample:
  "valid_datetime new_year_2017 \<and> valid_datetime new_year_2023 \<and>
   (year new_year_2017, month new_year_2017, day new_year_2017) \<noteq>
     (year new_year_2023, month new_year_2023, day new_year_2023) \<and>
   strftime_A_B_d new_year_2017 = ''Sunday January 01'' \<and>
   strftime_A_B_d new_year_2023 = ''Sunday January 01'' \<and>
   fst (update_scratch (1, 1) new_year_2023
          \<lparr> curr_tile = None, curr_time = Some new_year_2017, memory = () \<rparr>) = NoSignal"
  by (simp add: update_scratch_def valid_datetime_def days_in_month_def DAYS_IN_MONTH_def
      strftime_A_B_d_def new_year_2017_def new_year_2023_def weekday_def toordinal_def
      days_before_year_def days_before_month_def DAYS_BEFORE_MONTH_def is_leap_def
      day_names_def month_names_def two_digits_def)

subsection \<open>A failed call keeps the position and the time\<close>









section \<open>Properties of the pixel grid\<close>

subsection \<open>Rounding to the nearest double\<close>

lemma round_half_even_of_int: "round_half_even (of_int n) = n"
  by (simp add: round_half_even_def)

lemma round_half_even_le:
  assumes "x \<le> of_int N"
  shows "round_half_even x \<le> N"
proof (cases "\<lfloor>x\<rfloor> = N")
  case True
  with assms have "x = of_int N"
    using of_int_floor_le [of x] by simp
  then show ?thesis by (simp add: round_half_even_of_int)
next
  case False
  moreover from assms have "\<lfloor>x\<rfloor> \<le> N"
    using floor_mono [of x "of_int N"] by simp
  ultimately have "\<lfloor>x\<rfloor> + 1 \<le> N" by simp
  then show ?thesis
    by (simp add: round_half_even_def Let_def)
qed

lemma round_half_even_ge:
  assumes "of_int N + 1 / 2 < x"
  shows "N + 1 \<le> round_half_even x"
proof (cases "\<lfloor>x\<rfloor> = N")
  case True
  with assms have "1 / 2 < x - of_int \<lfloor>x\<rfloor>" by simp
  then show ?thesis
    using True by (simp add: round_half_even_def Let_def)
next
  case False
  have "N \<le> \<lfloor>x\<rfloor>" using assms by (simp add: le_floor_iff)
  with False have "N + 1 \<le> \<lfloor>x\<rfloor>" by simp
  then show ?thesis
    by (simp add: round_half_even_def Let_def)
qed

lemma floor_log2_lower:
  assumes "0 < n" "0 < d"
  shows "(of_int d :: rat) * 2 powi floor_log2 n d \<le> of_int n"
proof (cases "(of_int d :: rat) * 2 powi (bitlen n - bitlen d) \<le> of_int n")
  case True
  then show ?thesis by (simp add: floor_log2_def)
next
  case False
  have bn: "1 \<le> bitlen n"
    using assms(1) bitlen_eq_zero_iff [of n] bitlen_nonneg [of n] by linarith
  have "(2::int) ^ nat (bitlen n - 1) \<le> n"
    using bitlen_bounds [OF assms(1)] by simp
  then have "(of_int ((2::int) ^ nat (bitlen n - 1)) :: rat) \<le> of_int n"
    by (simp only: of_int_le_iff)
  then have n_lo: "(2::rat) powi (bitlen n - 1) \<le> of_int n"
    using bn by (simp add: power_int_nonneg_exp)
  have "d < (2::int) ^ nat (bitlen d)"
    using bitlen_bounds [OF assms(2)] by simp
  then have "(of_int d :: rat) < of_int ((2::int) ^ nat (bitlen d))"
    by (simp only: of_int_less_iff)
  then have d_hi: "(of_int d :: rat) \<le> 2 powi bitlen d"
    using bitlen_nonneg [of d] by (simp add: power_int_nonneg_exp)
  have "(of_int d :: rat) * 2 powi (bitlen n - bitlen d - 1)
      \<le> 2 powi bitlen d * 2 powi (bitlen n - bitlen d - 1)"
    using d_hi by (intro mult_right_mono) simp_all
  also have "\<dots> = (2::rat) powi (bitlen d + (bitlen n - bitlen d - 1))"
    by (rule power_int_add [symmetric]) simp
  also have "bitlen d + (bitlen n - bitlen d - 1) = bitlen n - 1"
    by simp
  also note n_lo
  finally show ?thesis
    using False by (simp add: floor_log2_def)
qed

lemma grid_exponent:
  assumes "0 < b" "b < 2 ^ 53" "a \<noteq> 0" "\<bar>a\<bar> < 2 ^ 53"
  shows "max (floor_log2 \<bar>a\<bar> b - 52) (- 1074) \<le> 0"
    and "(of_int b :: rat) * 2 powi max (floor_log2 \<bar>a\<bar> b - 52) (- 1074) < 2"
proof -
  define e where "e = floor_log2 \<bar>a\<bar> b"
  have lower: "(of_int b :: rat) * 2 powi e \<le> of_int \<bar>a\<bar>"
    unfolding e_def using assms(1,3) by (intro floor_log2_lower) simp_all
  have a_lt: "(of_int \<bar>a\<bar> :: rat) < 2 ^ 53"
    using assms(4) by (metis of_int_less_numeral_power_cancel_iff)
  have b_lt: "(of_int b :: rat) < 2 ^ 53"
    using assms(2) by (metis of_int_less_numeral_power_cancel_iff)
  have b_ge: "(1::rat) \<le> of_int b"
    using assms(1) by simp
  have "(2::rat) powi e = 1 * 2 powi e" by simp
  also have "\<dots> \<le> of_int b * 2 powi e"
    using b_ge by (intro mult_right_mono) simp_all
  also note lower
  also note a_lt
  finally have "(2::rat) powi e < 2 powi 53" by simp
  then have e_lt: "e < 53"
    by (intro power_int_le_imp_less_exp [of "2::rat"]) simp_all
  then show "max (floor_log2 \<bar>a\<bar> b - 52) (- 1074) \<le> 0"
    by (simp add: e_def)
  show "(of_int b :: rat) * 2 powi max (floor_log2 \<bar>a\<bar> b - 52) (- 1074) < 2"
  proof (cases "- 1074 \<le> e - 52")
    case True
    have "(of_int b :: rat) * 2 powi (e - 52) = of_int b * 2 powi e / 2 ^ 52"
      by (simp add: power_int_diff)
    also have "\<dots> \<le> of_int \<bar>a\<bar> / 2 ^ 52"
      using lower by (intro divide_right_mono) simp_all
    also have "\<dots> < 2 ^ 53 / 2 ^ 52"
      using a_lt by (intro divide_strict_right_mono) simp_all
    also have "\<dots> = (2::rat)" by simp
    finally have "(of_int b :: rat) * 2 powi (e - 52) < 2" .
    moreover have "max (e - 52) (- 1074) = e - 52"
      using True by (rule max_absorb1)
    ultimately show ?thesis
      unfolding e_def by (simp only:)
  next
    case False
    have "(of_int b :: rat) * 2 powi (- 1074) < 2 ^ 53 * 2 powi (- 1074)"
      using b_lt by (intro mult_strict_right_mono) simp_all
    also have "\<dots> \<le> (2::rat)"
      by (simp add: power_int_minus)
    finally have "(of_int b :: rat) * 2 powi (- 1074) < 2" .
    moreover have "max (e - 52) (- 1074) = - 1074"
      using False by (intro max_absorb2) simp
    ultimately show ?thesis
      unfolding e_def by (simp only:)
  qed
qed

lemma nearest_double_ceiling:
  assumes "0 < b" "b < 2 ^ 53" "\<bar>a\<bar> < 2 ^ 53"
  shows "of_int \<lceil>of_int a / of_int b :: rat\<rceil> - 1 < nearest_double a b \<and>
         nearest_double a b \<le> of_int \<lceil>of_int a / of_int b :: rat\<rceil>"
proof (cases "a = 0")
  case True
  then show ?thesis by (simp add: nearest_double_def)
next
  case False
  define q :: rat where "q = of_int a / of_int b"
  define K where "K = \<lceil>q\<rceil>"
  define p where "p = max (floor_log2 \<bar>a\<bar> b - 52) (- 1074)"
  define M :: int where "M = 2 ^ nat (- p)"
  define R where "R = round_half_even (q * of_int M)"
  have p_le: "p \<le> 0" and fine: "(of_int b :: rat) * 2 powi p < 2"
    unfolding p_def using grid_exponent [OF assms(1,2) False assms(3)] by simp_all
  have M_pos: "0 < M" by (simp add: M_def)
  have "(2::rat) powi p = inverse (2 powi (- p))"
    using power_int_minus [of "2::rat" "- p"] by simp
  also have "(2::rat) powi (- p) = 2 ^ nat (- p)"
    using p_le by (simp add: power_int_nonneg_exp)
  also have "\<dots> = of_int M" by (simp add: M_def)
  finally have grid: "(2::rat) powi p = 1 / of_int M"
    by (simp add: inverse_eq_divide)
  have nd: "nearest_double a b = of_int R / of_int M"
    using False assms(1)
    by (simp add: nearest_double_def p_def [symmetric] Let_def grid q_def [symmetric] R_def)
  have b_lt: "(of_int b :: rat) < 2 * of_int M"
    using fine M_pos by (simp add: grid field_simps)
  have b_pos: "(0::rat) < of_int b" using assms(1) by simp
  have Mr_pos: "(0::rat) < of_int M" using M_pos by simp
  \<comment> \<open>above\<close>
  have "q \<le> of_int K" by (simp add: K_def)
  then have "q * of_int M \<le> of_int K * of_int M"
    using Mr_pos by (intro mult_right_mono) simp_all
  then have "q * of_int M \<le> of_int (K * M)" by simp
  then have "R \<le> K * M"
    unfolding R_def by (rule round_half_even_le)
  then have "(of_int R :: rat) \<le> of_int (K * M)"
    by (simp only: of_int_le_iff)
  then have "(of_int R :: rat) / of_int M \<le> of_int (K * M) / of_int M"
    using Mr_pos by (intro divide_right_mono) simp_all
  then have upper: "(of_int R :: rat) / of_int M \<le> of_int K"
    using Mr_pos by simp
  \<comment> \<open>below\<close>
  have "of_int (K - 1) < q"
    unfolding K_def using ceiling_correct [of q] by simp
  then have "(of_int ((K - 1) * b) :: rat) < of_int a"
    using b_pos by (simp add: q_def field_simps)
  then have "(K - 1) * b < a"
    by (simp only: of_int_less_iff)
  then have "(K - 1) * b + 1 \<le> a" by simp
  then have "(of_int ((K - 1) * b + 1) :: rat) \<le> of_int a"
    by (simp only: of_int_le_iff)
  then have "(of_int ((K - 1) * b + 1) :: rat) / of_int b \<le> of_int a / of_int b"
    using b_pos by (intro divide_right_mono) simp_all
  moreover have "(of_int ((K - 1) * b + 1) :: rat) / of_int b = of_int (K - 1) + 1 / of_int b"
    using b_pos by (simp add: field_simps)
  ultimately have gap: "of_int (K - 1) + 1 / of_int b \<le> q"
    by (simp only: q_def)
  have half: "(1::rat) / 2 < of_int M / of_int b"
    using b_lt b_pos by (simp add: field_simps)
  have "of_int ((K - 1) * M) + (1::rat) / 2 < of_int (K - 1) * of_int M + of_int M / of_int b"
    using half by simp
  also have "\<dots> = (of_int (K - 1) + 1 / of_int b) * of_int M"
    by (simp add: algebra_simps)
  also have "\<dots> \<le> q * of_int M"
    using gap Mr_pos by (intro mult_right_mono) simp_all
  finally have "(K - 1) * M + 1 \<le> R"
    unfolding R_def by (rule round_half_even_ge)
  then have "(of_int ((K - 1) * M + 1) :: rat) \<le> of_int R"
    by (simp only: of_int_le_iff)
  then have "(of_int ((K - 1) * M + 1) :: rat) / of_int M \<le> of_int R / of_int M"
    using Mr_pos by (intro divide_right_mono) simp_all
  moreover have "(of_int ((K - 1) * M + 1) :: rat) / of_int M = of_int (K - 1) + 1 / of_int M"
    using Mr_pos by (simp add: field_simps)
  ultimately have "of_int (K - 1) + 1 / of_int M \<le> (of_int R :: rat) / of_int M"
    by (simp only:)
  moreover have "(0::rat) < 1 / of_int M" using Mr_pos by simp
  ultimately have "of_int (K - 1) < (of_int R :: rat) / of_int M"
    by linarith
  then have lower: "of_int K - 1 < (of_int R :: rat) / of_int M"
    by simp
  from lower upper show ?thesis
    unfolding nd K_def q_def by simp
qed

subsection \<open>Rounding keeps the order\<close>

lemma floor_le_round_half_even: "\<lfloor>x\<rfloor> \<le> round_half_even x"
  by (simp add: round_half_even_def Let_def)

lemma round_half_even_le_floor: "round_half_even x \<le> \<lfloor>x\<rfloor> + 1"
  by (simp add: round_half_even_def Let_def)

lemma round_half_even_above:
  assumes "of_int N \<le> x"
  shows "N \<le> round_half_even x"
proof -
  have "N \<le> \<lfloor>x\<rfloor>" using assms by (simp add: le_floor_iff)
  also note floor_le_round_half_even
  finally show ?thesis .
qed

lemma round_half_even_mono:
  assumes "x \<le> y"
  shows "round_half_even x \<le> round_half_even y"
proof (cases "\<lfloor>x\<rfloor> = \<lfloor>y\<rfloor>")
  case True
  from assms have "x - of_int \<lfloor>x\<rfloor> \<le> y - of_int \<lfloor>x\<rfloor>" by simp
  then show ?thesis
    using True by (simp add: round_half_even_def Let_def)
next
  case False
  moreover have "\<lfloor>x\<rfloor> \<le> \<lfloor>y\<rfloor>" using assms by (rule floor_mono)
  ultimately have "\<lfloor>x\<rfloor> + 1 \<le> \<lfloor>y\<rfloor>" by simp
  with round_half_even_le_floor [of x] floor_le_round_half_even [of y]
  show ?thesis by linarith
qed

lemma round_half_even_minus: "round_half_even (- x) = - round_half_even x"
proof (cases "x \<in> \<int>")
  case True
  then obtain n where x: "x = of_int n" by (auto elim: Ints_cases)
  then have "- x = of_int (- n)" by simp
  then have "round_half_even (- x) = - n"
    by (simp only: round_half_even_of_int)
  moreover have "round_half_even x = n"
    unfolding x by (rule round_half_even_of_int)
  ultimately show ?thesis by simp
next
  case False
  define f where "f = \<lfloor>x\<rfloor>"
  have "of_int f \<noteq> x"
  proof
    assume "of_int f = x"
    then have "x \<in> \<int>" by (metis Ints_of_int)
    with False show False ..
  qed
  moreover have "of_int f \<le> x" unfolding f_def by (rule of_int_floor_le)
  ultimately have lo: "of_int f < x"
    by (rule order.not_eq_order_implies_strict)
  have hi: "x < of_int f + 1"
    unfolding f_def using floor_correct [of x] by simp
  have "\<lfloor>- x\<rfloor> = - f - 1"
    using lo hi by (intro floor_unique) simp_all
  then have fl: "\<lfloor>- x\<rfloor> = - f - 1" .
  have rem: "- x - of_int (- f - 1) = 1 - (x - of_int f)"
    by simp
  have neg: "round_half_even (- x) =
      (if 1 - (x - of_int f) < 1 / 2 then - f - 1
       else if 1 / 2 < 1 - (x - of_int f) then - f - 1 + 1
       else if even (- f - 1) then - f - 1 else - f - 1 + 1)"
    unfolding round_half_even_def Let_def fl rem ..
  have pos: "round_half_even x =
      (if x - of_int f < 1 / 2 then f
       else if 1 / 2 < x - of_int f then f + 1
       else if even f then f else f + 1)"
    by (simp add: round_half_even_def Let_def f_def)
  consider "x - of_int f < 1 / 2" | "1 / 2 < x - of_int f" | "x - of_int f = 1 / 2"
    by linarith
  then show ?thesis
  proof cases
    case 1
    then show ?thesis unfolding neg pos by simp
  next
    case 2
    then show ?thesis unfolding neg pos by simp
  next
    case 3
    then show ?thesis unfolding neg pos by simp
  qed
qed

lemma powi_less_imp_less:
  assumes "(2::rat) powi m < 2 powi n"
  shows "m < n"
proof (rule ccontr)
  assume "\<not> m < n"
  then have "n \<le> m" by simp
  then have "(2::rat) powi n \<le> 2 powi m"
    by (intro power_int_increasing) simp_all
  with assms show False by simp
qed

lemma floor_log2_upper:
  assumes "0 < n" "0 < d"
  shows "(of_int n :: rat) < of_int d * 2 powi (floor_log2 n d + 1)"
proof (cases "(of_int d :: rat) * 2 powi (bitlen n - bitlen d) \<le> of_int n")
  case False
  then show ?thesis by (simp add: floor_log2_def)
next
  case True
  have bd: "1 \<le> bitlen d"
    using assms(2) bitlen_eq_zero_iff [of d] bitlen_nonneg [of d] by linarith
  have "n < (2::int) ^ nat (bitlen n)"
    using bitlen_bounds [OF assms(1)] by simp
  then have "(of_int n :: rat) < of_int ((2::int) ^ nat (bitlen n))"
    by (simp only: of_int_less_iff)
  then have n_hi: "(of_int n :: rat) < 2 powi bitlen n"
    using bitlen_nonneg [of n] by (simp add: power_int_nonneg_exp)
  have "(2::int) ^ nat (bitlen d - 1) \<le> d"
    using bitlen_bounds [OF assms(2)] by simp
  then have "(of_int ((2::int) ^ nat (bitlen d - 1)) :: rat) \<le> of_int d"
    by (simp only: of_int_le_iff)
  then have d_lo: "(2::rat) powi (bitlen d - 1) \<le> of_int d"
    using bd by (simp add: power_int_nonneg_exp)
  have "bitlen n = (bitlen d - 1) + (bitlen n - bitlen d + 1)" by simp
  then have "(2::rat) powi bitlen n = 2 powi ((bitlen d - 1) + (bitlen n - bitlen d + 1))"
    by (simp only:)
  also have "\<dots> = 2 powi (bitlen d - 1) * 2 powi (bitlen n - bitlen d + 1)"
    by (rule power_int_add) simp
  also have "\<dots> \<le> of_int d * 2 powi (bitlen n - bitlen d + 1)"
    using d_lo by (intro mult_right_mono) simp_all
  finally have "(of_int n :: rat) < of_int d * 2 powi (bitlen n - bitlen d + 1)"
    using n_hi by simp
  then show ?thesis
    using True by (simp add: floor_log2_def)
qed

lemma floor_log2_mono:
  assumes "0 < n" "n \<le> n'" "0 < d"
  shows "floor_log2 n d \<le> floor_log2 n' d"
proof -
  have d_pos: "(0::rat) < of_int d" using assms(3) by simp
  have "(of_int d :: rat) * 2 powi floor_log2 n d \<le> of_int n"
    using assms(1,3) by (rule floor_log2_lower)
  also have "(of_int n :: rat) \<le> of_int n'"
    using assms(2) by simp
  also have "(of_int n' :: rat) < of_int d * 2 powi (floor_log2 n' d + 1)"
    using assms by (intro floor_log2_upper) simp_all
  finally have "(2::rat) powi floor_log2 n d < 2 powi (floor_log2 n' d + 1)"
    using d_pos by simp
  then have "floor_log2 n d < floor_log2 n' d + 1"
    by (rule powi_less_imp_less)
  then show ?thesis by simp
qed

lemma nearest_double_pos:
  assumes "0 < a" "0 < b"
  shows "nearest_double a b =
    of_int (round_half_even (of_int a / of_int b / 2 powi max (floor_log2 a b - 52) (- 1074)))
      * 2 powi max (floor_log2 a b - 52) (- 1074)"
  using assms by (simp add: nearest_double_def Let_def)

lemma nearest_double_pos_mono:
  assumes "0 < a" "a \<le> a'" "0 < b"
  shows "nearest_double a b \<le> nearest_double a' b"
proof -
  define e e' where "e = floor_log2 a b" and "e' = floor_log2 a' b"
  define p p' where "p = max (e - 52) (- 1074)" and "p' = max (e' - 52) (- 1074)"
  define q q' :: rat where "q = of_int a / of_int b" and "q' = of_int a' / of_int b"
  have a': "0 < a'" using assms(1,2) by simp
  have b_pos: "(0::rat) < of_int b" using assms(3) by simp
  have nd: "nearest_double a b = of_int (round_half_even (q / 2 powi p)) * 2 powi p"
    unfolding q_def p_def e_def using assms(1,3) by (rule nearest_double_pos)
  have nd': "nearest_double a' b = of_int (round_half_even (q' / 2 powi p')) * 2 powi p'"
    unfolding q'_def p'_def e'_def using a' assms(3) by (rule nearest_double_pos)
  have ee: "e \<le> e'"
    unfolding e_def e'_def using assms by (rule floor_log2_mono)
  have qq: "q \<le> q'"
    unfolding q_def q'_def using assms(2) b_pos by (intro divide_right_mono) simp_all
  show ?thesis
  proof (cases "p = p'")
    case True
    have "q / 2 powi p \<le> q' / 2 powi p"
      using qq by (intro divide_right_mono) simp_all
    then have "round_half_even (q / 2 powi p) \<le> round_half_even (q' / 2 powi p)"
      by (rule round_half_even_mono)
    then have "(of_int (round_half_even (q / 2 powi p)) :: rat)
        \<le> of_int (round_half_even (q' / 2 powi p))"
      by (simp only: of_int_le_iff)
    then have "(of_int (round_half_even (q / 2 powi p)) :: rat) * 2 powi p
        \<le> of_int (round_half_even (q' / 2 powi p)) * 2 powi p"
      by (intro mult_right_mono) simp_all
    then show ?thesis
      unfolding nd nd' True [symmetric] .
  next
    case False
    with ee have e_lt: "e + 1 \<le> e'" and p'_eq: "p' = e' - 52" and p_lt: "p \<le> e'"
      unfolding p_def p'_def by (auto simp: max_def split: if_splits)
    \<comment> \<open>the power of two between the two quotients\<close>
    have "(of_int a :: rat) < of_int b * 2 powi (e + 1)"
      unfolding e_def using assms(1,3) by (rule floor_log2_upper)
    also have "\<dots> \<le> of_int b * 2 powi e'"
      using e_lt b_pos by (intro mult_left_mono power_int_increasing) simp_all
    finally have "q < 2 powi e'"
      using b_pos by (simp add: q_def field_simps)
    then have "q / 2 powi p \<le> 2 powi e' / 2 powi p"
      by (intro divide_right_mono) simp_all
    also have "(2::rat) powi e' / 2 powi p = 2 powi (e' - p)"
      by (rule power_int_diff [symmetric]) simp
    also have "\<dots> = of_int (2 ^ nat (e' - p))"
      using p_lt by (simp add: power_int_nonneg_exp)
    finally have "round_half_even (q / 2 powi p) \<le> 2 ^ nat (e' - p)"
      by (rule round_half_even_le)
    then have "(of_int (round_half_even (q / 2 powi p)) :: rat) \<le> of_int (2 ^ nat (e' - p))"
      by (simp only: of_int_le_iff)
    then have "(of_int (round_half_even (q / 2 powi p)) :: rat) * 2 powi p
        \<le> of_int (2 ^ nat (e' - p)) * 2 powi p"
      by (intro mult_right_mono) simp_all
    also have "(of_int (2 ^ nat (e' - p)) :: rat) = 2 powi (e' - p)"
      using p_lt by (simp add: power_int_nonneg_exp)
    also have "(2::rat) powi (e' - p) * 2 powi p = 2 powi (e' - p + p)"
      by (rule power_int_add [symmetric]) simp
    finally have below: "nearest_double a b \<le> 2 powi e'"
      unfolding nd by simp
    have "(of_int b :: rat) * 2 powi e' \<le> of_int a'"
      unfolding e'_def using a' assms(3) by (rule floor_log2_lower)
    then have "2 powi e' \<le> q'"
      using b_pos by (simp add: q'_def field_simps)
    then have "2 powi e' / 2 powi p' \<le> q' / 2 powi p'"
      by (intro divide_right_mono) simp_all
    moreover have "(2::rat) powi e' / 2 powi p' = 2 powi (e' - p')"
      by (rule power_int_diff [symmetric]) simp
    moreover have "(2::rat) powi (e' - p') = of_int (2 ^ 52)"
      by (simp add: p'_eq)
    ultimately have "of_int (2 ^ 52) \<le> q' / 2 powi p'"
      by (simp only:)
    then have "2 ^ 52 \<le> round_half_even (q' / 2 powi p')"
      by (rule round_half_even_above)
    then have "(of_int (2 ^ 52) :: rat) \<le> of_int (round_half_even (q' / 2 powi p'))"
      by (simp only: of_int_le_iff)
    then have top: "(of_int (2 ^ 52) :: rat) * 2 powi p'
        \<le> of_int (round_half_even (q' / 2 powi p')) * 2 powi p'"
      by (intro mult_right_mono) simp_all
    have "e' = 52 + (e' - 52)" by simp
    then have "(2::rat) powi e' = 2 powi (52 + (e' - 52))"
      by (simp only:)
    also have "\<dots> = 2 powi 52 * 2 powi (e' - 52)"
      by (rule power_int_add) simp
    also have "\<dots> = of_int (2 ^ 52) * 2 powi p'"
      by (simp add: p'_eq)
    also note top
    finally have above: "2 powi e' \<le> nearest_double a' b"
      unfolding nd' .
    from below above show ?thesis by (rule order_trans)
  qed
qed

lemma nearest_double_nonneg:
  assumes "0 \<le> a" "0 < b"
  shows "0 \<le> nearest_double a b"
proof (cases "a = 0")
  case True
  then show ?thesis by (simp add: nearest_double_def)
next
  case False
  with assms(1) have a: "0 < a" by simp
  have "(0::rat) \<le> of_int a / of_int b / 2 powi max (floor_log2 a b - 52) (- 1074)"
    using a assms(2) by simp
  then have "of_int 0 \<le> (of_int a / of_int b / 2 powi max (floor_log2 a b - 52) (- 1074) :: rat)"
    by (simp only: of_int_0)
  then have "0 \<le> round_half_even (of_int a / of_int b / 2 powi max (floor_log2 a b - 52) (- 1074))"
    by (rule round_half_even_above)
  then show ?thesis
    unfolding nearest_double_pos [OF a assms(2)] by simp
qed

lemma nearest_double_minus: "nearest_double (- a) b = - nearest_double a b"
proof (cases "a = 0")
  case True
  then show ?thesis by (simp add: nearest_double_def)
next
  case False
  define p where "p = max (floor_log2 \<bar>a\<bar> \<bar>b\<bar> - 52) (- 1074)"
  have "of_int (- a) / of_int b / 2 powi p = - (of_int a / of_int b / 2 powi p :: rat)"
    by simp
  then have "round_half_even (of_int (- a) / of_int b / 2 powi p)
      = - round_half_even (of_int a / of_int b / 2 powi p)"
    by (simp only: round_half_even_minus)
  then show ?thesis
    using False by (simp add: nearest_double_def Let_def p_def [symmetric])
qed

lemma nearest_double_mono:
  assumes "0 < b" "a \<le> a'"
  shows "nearest_double a b \<le> nearest_double a' b"
proof -
  consider "0 < a" | "a \<le> 0" "0 \<le> a'" | "a' < 0"
    using assms(2) by linarith
  then show ?thesis
  proof cases
    case 1
    then show ?thesis using assms(2,1) by (rule nearest_double_pos_mono)
  next
    case 2
    have "0 \<le> nearest_double (- a) b"
      using 2(1) assms(1) by (intro nearest_double_nonneg) simp_all
    then have "nearest_double a b \<le> 0"
      by (simp add: nearest_double_minus)
    also have "0 \<le> nearest_double a' b"
      using 2(2) assms(1) by (rule nearest_double_nonneg)
    finally show ?thesis .
  next
    case 3
    then have "nearest_double (- a') b \<le> nearest_double (- a) b"
      using assms by (intro nearest_double_pos_mono) simp_all
    then show ?thesis
      by (simp add: nearest_double_minus)
  qed
qed

subsection \<open>True division\<close>

lemma ceiling_true_div:
  assumes "0 < b" "b < 2 ^ 53" "\<bar>a\<bar> < 2 ^ 53"
  shows "\<exists>r. true_div a b = Inr r \<and> \<lceil>r\<rceil> = \<lceil>of_int a / of_int b :: rat\<rceil>"
proof -
  define q :: rat where "q = of_int a / of_int b"
  define K where "K = \<lceil>q\<rceil>"
  define r where "r = nearest_double a b"
  have near: "of_int K - 1 < r" "r \<le> of_int K"
    unfolding K_def r_def q_def using nearest_double_ceiling [OF assms] by simp_all
  then have ceil: "\<lceil>r\<rceil> = K"
    by (intro ceiling_unique) simp_all
  have b1: "(1::rat) \<le> of_int b" using assms(1) by simp
  have "\<bar>q\<bar> = \<bar>of_int a\<bar> / of_int b"
    using assms(1) by (simp add: q_def)
  also have "\<dots> \<le> \<bar>of_int a\<bar> / 1"
    using b1 by (intro frac_le) simp_all
  also have "\<dots> = of_int \<bar>a\<bar>" by simp
  also have "\<dots> < 2 ^ 53"
    using assms(3) by (metis of_int_less_numeral_power_cancel_iff)
  finally have "\<bar>q\<bar> < 2 ^ 53" .
  then have q: "- (2 ^ 53) < q" "q < 2 ^ 53"
    by linarith+
  have "q \<le> of_int ((2::int) ^ 53)" using q(2) by simp
  then have "K \<le> 2 ^ 53"
    unfolding K_def by (simp only: ceiling_le_iff)
  then have K_hi: "(of_int K :: rat) \<le> of_int ((2::int) ^ 53)"
    by (simp only: of_int_le_iff)
  have "q \<le> of_int K"
    unfolding K_def by (rule le_of_int_ceiling)
  with q(1) have K_lo: "- (2 ^ 53) < (of_int K :: rat)" by linarith
  from near K_hi K_lo have "\<bar>r\<bar> \<le> 2 ^ 53 + 1"
    by (simp add: abs_le_iff)
  also have "\<dots> < (2::rat) ^ 1024" by simp
  finally have "\<not> 2 ^ 1024 \<le> \<bar>r\<bar>" by simp
  then have "true_div a b = Inr r"
    using assms(1) by (simp add: true_div_def r_def [symmetric] Let_def)
  with ceil show ?thesis by (simp add: K_def q_def)
qed

lemma ceiling_as_div:
  assumes "0 < (b::int)"
  shows "\<lceil>of_int a / of_int b :: rat\<rceil> = (if b dvd a then a div b else a div b + 1)"
  using assms
  by (simp add: ceiling_divide_eq_div zdiv_zminus1_eq_if dvd_eq_mod_eq_0)

subsection \<open>Pixels to tiles\<close>

lemma true_div_mono:
  assumes "0 < b" "a \<le> a'" "true_div a b = Inr r" "true_div a' b = Inr r'"
  shows "r \<le> r'"
proof -
  from assms(1,3) have "r = nearest_double a b"
    by (simp add: true_div_def Let_def split: if_splits)
  moreover from assms(1,4) have "r' = nearest_double a' b"
    by (simp add: true_div_def Let_def split: if_splits)
  ultimately show ?thesis
    using nearest_double_mono [OF assms(1,2)] by simp
qed

lemma turn_coordinate_to_tile_Inr:
  assumes "turn_coordinate_to_tile mz (px, py) = Inr (x, y)"
  shows "\<exists>qx qy. true_div px (sq_tile_size mz) = Inr qx \<and> true_div py (sq_tile_size mz) = Inr qy \<and>
           x = \<lceil>qx\<rceil> \<and> y = \<lceil>qy\<rceil>"
  using assms by (auto simp: turn_coordinate_to_tile_def bnd_Inr_iff)

lemma turn_coordinate_to_tile_mono:
  assumes "0 < sq_tile_size mz"
    and "turn_coordinate_to_tile mz (px, py) = Inr (x, y)"
    and "turn_coordinate_to_tile mz (px', py') = Inr (x', y')"
  shows "(px \<le> px' \<longrightarrow> x \<le> x') \<and> (py \<le> py' \<longrightarrow> y \<le> y')"
proof -
  from turn_coordinate_to_tile_Inr [OF assms(2)] obtain qx qy where
    q: "true_div px (sq_tile_size mz) = Inr qx" "true_div py (sq_tile_size mz) = Inr qy"
    and xy: "x = \<lceil>qx\<rceil>" "y = \<lceil>qy\<rceil>"
    by blast
  from turn_coordinate_to_tile_Inr [OF assms(3)] obtain qx' qy' where
    q': "true_div px' (sq_tile_size mz) = Inr qx'" "true_div py' (sq_tile_size mz) = Inr qy'"
    and xy': "x' = \<lceil>qx'\<rceil>" "y' = \<lceil>qy'\<rceil>"
    by blast
  have "x \<le> x'" if "px \<le> px'"
    unfolding xy xy' using true_div_mono [OF assms(1) that q(1) q'(1)] by (rule ceiling_mono)
  moreover have "y \<le> y'" if "py \<le> py'"
    unfolding xy xy' using true_div_mono [OF assms(1) that q(2) q'(2)] by (rule ceiling_mono)
  ultimately show ?thesis by blast
qed

lemma turn_coordinate_to_tile_exact:
  assumes "0 < sq_tile_size mz" "sq_tile_size mz < 2 ^ 53" "\<bar>px\<bar> < 2 ^ 53" "\<bar>py\<bar> < 2 ^ 53"
  shows "turn_coordinate_to_tile mz (px, py) =
           Inr (\<lceil>of_int px / of_int (sq_tile_size mz) :: rat\<rceil>,
                \<lceil>of_int py / of_int (sq_tile_size mz) :: rat\<rceil>)"
proof -
  from ceiling_true_div [OF assms(1,2,3)] obtain qx where
    "true_div px (sq_tile_size mz) = Inr qx"
    "\<lceil>qx\<rceil> = \<lceil>of_int px / of_int (sq_tile_size mz) :: rat\<rceil>"
    by blast
  moreover from ceiling_true_div [OF assms(1,2,4)] obtain qy where
    "true_div py (sq_tile_size mz) = Inr qy"
    "\<lceil>qy\<rceil> = \<lceil>of_int py / of_int (sq_tile_size mz) :: rat\<rceil>"
    by blast
  ultimately show ?thesis
    by (simp add: turn_coordinate_to_tile_def)
qed

lemma tiled_init: "maze_init (town\<lparr>meta_sq_tile_size := 32\<rparr>) = Inr tiled_maze"
  by (simp add: town_def town_maze_def tiled_maze_def maze_init_def py_range_def make_tile_def
      py_index_def py_pos_def index_tile_addresses_def index_add_def tiles_for_address_def
      dict_get_def obj_path_def lawn_tile_def board_tile_def board_idle_def upto.simps)

lemma tiled_size: "sq_tile_size tiled_maze = 32"
  by (simp add: tiled_maze_def)

lemma true_div_huge: "true_div (2 ^ 55 + 1) 32 = Inr (2 ^ 50)"
  by code_simp

lemma true_div_edge: "true_div 64 32 = Inr 2"
  by code_simp

lemma tiled_far: "turn_coordinate_to_tile tiled_maze (2 ^ 55 + 1, 64) = Inr (2 ^ 50, 2)"
proof -
  have "turn_coordinate_to_tile tiled_maze (2 ^ 55 + 1, 64) =
      bnd (true_div (2 ^ 55 + 1) 32) (\<lambda>qx. bnd (true_div 64 32) (\<lambda>qy. Inr (\<lceil>qx\<rceil>, \<lceil>qy\<rceil>)))"
    by (simp only: turn_coordinate_to_tile_def tiled_size fst_conv snd_conv)
  also have "\<dots> = Inr (\<lceil>2 ^ 50 :: rat\<rceil>, \<lceil>2 :: rat\<rceil>)"
    by (simp only: true_div_huge true_div_edge bnd_Inr)
  also have "\<dots> = Inr (2 ^ 50, 2)"
    by simp
  finally show ?thesis .
qed

text \<open>
  Claim C5, as amended. For a tile size \<open>s\<close> with \<open>0 < s < 2\<^sup>5\<^sup>3\<close> and pixel coordinates
  of magnitude below \<open>2\<^sup>5\<^sup>3\<close>, \<open>turn_coordinate_to_tile\<close> returns the ceiling of \<open>px / s\<close> on
  each axis: \<open>px div s\<close> for a pixel that is a multiple of \<open>s\<close>, as floor division gives,
  and \<open>px div s + 1\<close> for every other pixel. For every tile size \<open>s > 0\<close> and all integer
  pixel coordinates, of any magnitude, the tile does not decrease when the pixel
  increases, on either axis, whenever the two conversions return.
\<close>

theorem turn_coordinate_to_tile_ceiling:
  assumes "0 < sq_tile_size mz"
  shows "(sq_tile_size mz < 2 ^ 53 \<and> \<bar>px\<bar> < 2 ^ 53 \<and> \<bar>py\<bar> < 2 ^ 53 \<longrightarrow>
            turn_coordinate_to_tile mz (px, py) =
              Inr (\<lceil>of_int px / of_int (sq_tile_size mz) :: rat\<rceil>,
                   \<lceil>of_int py / of_int (sq_tile_size mz) :: rat\<rceil>) \<and>
            turn_coordinate_to_tile mz (px, py) =
              Inr (if sq_tile_size mz dvd px then px div sq_tile_size mz
                   else px div sq_tile_size mz + 1,
                   if sq_tile_size mz dvd py then py div sq_tile_size mz
                   else py div sq_tile_size mz + 1)) \<and>
         (\<forall>px' py' x y x' y'.
            turn_coordinate_to_tile mz (px, py) = Inr (x, y) \<and>
            turn_coordinate_to_tile mz (px', py') = Inr (x', y') \<longrightarrow>
            (px \<le> px' \<longrightarrow> x \<le> x') \<and> (py \<le> py' \<longrightarrow> y \<le> y'))"
proof (rule conjI)
  show "sq_tile_size mz < 2 ^ 53 \<and> \<bar>px\<bar> < 2 ^ 53 \<and> \<bar>py\<bar> < 2 ^ 53 \<longrightarrow>
      turn_coordinate_to_tile mz (px, py) =
        Inr (\<lceil>of_int px / of_int (sq_tile_size mz) :: rat\<rceil>,
             \<lceil>of_int py / of_int (sq_tile_size mz) :: rat\<rceil>) \<and>
      turn_coordinate_to_tile mz (px, py) =
        Inr (if sq_tile_size mz dvd px then px div sq_tile_size mz
             else px div sq_tile_size mz + 1,
             if sq_tile_size mz dvd py then py div sq_tile_size mz
             else py div sq_tile_size mz + 1)"
  proof (intro impI conjI)
    assume range: "sq_tile_size mz < 2 ^ 53 \<and> \<bar>px\<bar> < 2 ^ 53 \<and> \<bar>py\<bar> < 2 ^ 53"
    show exact: "turn_coordinate_to_tile mz (px, py) =
        Inr (\<lceil>of_int px / of_int (sq_tile_size mz) :: rat\<rceil>,
             \<lceil>of_int py / of_int (sq_tile_size mz) :: rat\<rceil>)"
      using assms range by (intro turn_coordinate_to_tile_exact) simp_all
    show "turn_coordinate_to_tile mz (px, py) =
        Inr (if sq_tile_size mz dvd px then px div sq_tile_size mz
             else px div sq_tile_size mz + 1,
             if sq_tile_size mz dvd py then py div sq_tile_size mz
             else py div sq_tile_size mz + 1)"
      unfolding exact ceiling_as_div [OF assms] ..
  qed
next
  show "\<forall>px' py' x y x' y'.
      turn_coordinate_to_tile mz (px, py) = Inr (x, y) \<and>
      turn_coordinate_to_tile mz (px', py') = Inr (x', y') \<longrightarrow>
      (px \<le> px' \<longrightarrow> x \<le> x') \<and> (py \<le> py' \<longrightarrow> y \<le> y')"
  proof (intro allI impI)
    fix px' py' x y x' y'
    assume both: "turn_coordinate_to_tile mz (px, py) = Inr (x, y) \<and>
        turn_coordinate_to_tile mz (px', py') = Inr (x', y')"
    from both have here: "turn_coordinate_to_tile mz (px, py) = Inr (x, y)"
      by (rule conjunct1)
    from both have there: "turn_coordinate_to_tile mz (px', py') = Inr (x', y')"
      by (rule conjunct2)
    from assms here there show "(px \<le> px' \<longrightarrow> x \<le> x') \<and> (py \<le> py' \<longrightarrow> y \<le> y')"
      by (rule turn_coordinate_to_tile_mono)
  qed
qed

theorem turn_coordinate_to_tile_ceiling_witness:
  "0 < sq_tile_size tiled_maze \<and> sq_tile_size tiled_maze < 2 ^ 53 \<and>
   \<bar>100::int\<bar> < 2 ^ 53 \<and> \<bar>64::int\<bar> < 2 ^ 53 \<and>
   turn_coordinate_to_tile tiled_maze (100, 64) = Inr (4, 2) \<and>
   turn_coordinate_to_tile tiled_maze (2 ^ 55 + 1, 64) = Inr (2 ^ 50, 2) \<and>
   (100::int) \<le> 2 ^ 55 + 1 \<and> (4::int) \<le> 2 ^ 50 \<and> (64::int) \<le> 64 \<and> (2::int) \<le> 2"
proof -
  have s: "0 < sq_tile_size tiled_maze"
    by (simp add: tiled_size)
  have range: "sq_tile_size tiled_maze < 2 ^ 53 \<and> \<bar>100::int\<bar> < 2 ^ 53 \<and> \<bar>64::int\<bar> < 2 ^ 53"
    by (simp add: tiled_size)
  have near: "turn_coordinate_to_tile tiled_maze (100, 64) = Inr (4, 2)"
    using turn_coordinate_to_tile_ceiling [OF s, THEN conjunct1, rule_format, OF range,
        THEN conjunct2]
    by (simp add: tiled_size)
  have "((100::int) \<le> 2 ^ 55 + 1 \<longrightarrow> (4::int) \<le> 2 ^ 50) \<and> ((64::int) \<le> 64 \<longrightarrow> (2::int) \<le> 2)"
    using turn_coordinate_to_tile_ceiling [OF s, of 100 64, THEN conjunct2, rule_format,
        of 4 2 "2 ^ 55 + 1" 64 "2 ^ 50" 2] near tiled_far
    by blast
  with s near tiled_far show ?thesis
    by (simp add: tiled_size)
qed

text \<open>
  The claim C5 as written fails in its first part at both points it makes. The pixel
  \<open>2\<^sup>5\<^sup>5 + 1\<close> with tiles of 32 maps to \<open>2\<^sup>5\<^sup>0\<close>, one less than the ceiling of the quotient,
  which the double cannot hold. The pixel 64 lies on a tile boundary and maps to tile 2,
  the tile floor division gives, not to the tile above it.
\<close>

theorem turn_coordinate_to_tile_counterexample:
  "turn_coordinate_to_tile tiled_maze (2 ^ 55 + 1, 64) = Inr (2 ^ 50, 2) \<and>
   \<lceil>of_int (2 ^ 55 + 1) / of_int 32 :: rat\<rceil> = 2 ^ 50 + 1 \<and>
   (64::int) div 32 = 2 \<and> (64::int) mod 32 = 0"
proof -
  have "\<lceil>of_int (2 ^ 55 + 1) / of_int 32 :: rat\<rceil> = 2 ^ 50 + 1"
    using ceiling_as_div [of 32 "2 ^ 55 + 1"] by simp
  with tiled_far show ?thesis by simp
qed

end
